theory Spec2Isabelle
  imports Main
begin

section \<open>Document nodes: the values of the JavaScript program\<close>

text \<open>
  The merger works on the trees that js-yaml and \<^verbatim>\<open>JSON.parse\<close> build: mappings
  (plain objects), sequences (arrays) and scalars. An array is an object too, and the
  engine does assign named properties to arrays (\<^verbatim>\<open>obj[key] = ...\<close> in
  \<^verbatim>\<open>handleInclude\<close> when \<^verbatim>\<open>obj\<close> is an array), so an array carries its elements
  and its named properties. The flag of an array says whether it is an instance of
  \<^verbatim>\<open>IncludedArray\<close>: that class is declared in \<^verbatim>\<open>./util\<close>, which is not among the
  sources; the engine uses it as a marker subclass of \<^verbatim>\<open>Array\<close> only
  (\<^verbatim>\<open>IncludedArray.from\<close>, \<^verbatim>\<open>instanceof IncludedArray\<close>).

  Limits of the model, none of them on a path a theorem below depends on: numbers are
  integers; a hole of a sparse array is the element \<open>JUndef\<close>; properties inherited
  from a prototype and the \<^verbatim>\<open>length\<close> property of arrays and strings are not
  modelled.
\<close>

datatype jv =
    JUndef
  | JNull
  | JBool bool
  | JNum int
  | JStr string
  | JArr bool "jv list" "(string \<times> jv) list"
  | JObj "(string \<times> jv) list"

text \<open>lodash \<^verbatim>\<open>isObject\<close>, \<^verbatim>\<open>isArray\<close>, \<^verbatim>\<open>instanceof IncludedArray\<close> and the truth
  value JavaScript gives a value in a condition.\<close>

fun isObject :: "jv \<Rightarrow> bool" where
  "isObject (JArr f es ps) = True"
| "isObject (JObj kvs) = True"
| "isObject v = False"

fun isArray :: "jv \<Rightarrow> bool" where
  "isArray (JArr f es ps) = True"
| "isArray v = False"

fun isIncludedArray :: "jv \<Rightarrow> bool" where
  "isIncludedArray (JArr f es ps) = f"
| "isIncludedArray v = False"

fun truthy :: "jv \<Rightarrow> bool" where
  "truthy JUndef = False"
| "truthy JNull = False"
| "truthy (JBool b) = b"
| "truthy (JNum n) = (n \<noteq> 0)"
| "truthy (JStr s) = (s \<noteq> [])"
| "truthy v = True"

subsection \<open>Property keys and their order\<close>

text \<open>
  A key that is the canonical decimal numeral of an array index (below \<open>2^32 - 1\<close>) is
  an integer key. JavaScript lists the own properties of an object with the integer keys
  first, in ascending order, then the other keys in the order they were created;
  \<^verbatim>\<open>Object.entries\<close> and \<^verbatim>\<open>Object.keys\<close> follow that order. The association list of
  a \<open>JObj\<close> is kept in that order by \<open>obj_set\<close>.
\<close>

definition is_digit :: "char \<Rightarrow> bool" where
  "is_digit c = (c \<in> set ''0123456789'')"

text \<open>The value of a decimal digit is its position in the string of the digits.\<close>

definition digit_val :: "char \<Rightarrow> nat" where
  "digit_val c = length (takeWhile (\<lambda>d. d \<noteq> c) ''0123456789'')"

definition dec_val :: "string \<Rightarrow> nat" where
  "dec_val s = foldl (\<lambda>a c. 10 * a + digit_val c) 0 s"

definition index_of_key :: "string \<Rightarrow> nat option" where
  "index_of_key s =
     (if s \<noteq> [] \<and> list_all is_digit s \<and> (s = ''0'' \<or> hd s \<noteq> CHR ''0'')
         \<and> length s \<le> 10 \<and> dec_val s < 4294967295
      then Some (dec_val s) else None)"

definition digit_char :: "nat \<Rightarrow> char" where
  "digit_char n = (case drop n ''0123456789'' of [] \<Rightarrow> CHR ''0'' | d # ds \<Rightarrow> d)"

fun show_nat_aux :: "nat \<Rightarrow> nat \<Rightarrow> string \<Rightarrow> string" where
  "show_nat_aux 0 n acc = acc"
| "show_nat_aux (Suc fuel) n acc =
     (if n < 10 then digit_char n # acc
      else show_nat_aux fuel (n div 10) (digit_char (n mod 10) # acc))"

definition show_nat :: "nat \<Rightarrow> string" where
  "show_nat n = show_nat_aux (Suc n) n []"

fun alist_get :: "(string \<times> 'a) list \<Rightarrow> string \<Rightarrow> 'a option" where
  "alist_get [] k = None"
| "alist_get ((k', v) # kvs) k = (if k' = k then Some v else alist_get kvs k)"

definition alist_del :: "(string \<times> 'a) list \<Rightarrow> string \<Rightarrow> (string \<times> 'a) list" where
  "alist_del kvs k = filter (\<lambda>e. fst e \<noteq> k) kvs"

text \<open>Creating the key \<open>k\<close> in an object that does not have it: an integer key goes
  before the first key that is not an integer key or is a larger one; any other key goes
  last.\<close>

fun alist_insert :: "(string \<times> 'a) list \<Rightarrow> string \<Rightarrow> 'a \<Rightarrow> (string \<times> 'a) list" where
  "alist_insert [] k v = [(k, v)]"
| "alist_insert ((k', v') # kvs) k v =
     (case index_of_key k of
        None \<Rightarrow> (k', v') # alist_insert kvs k v
      | Some i \<Rightarrow>
          (case index_of_key k' of
             None \<Rightarrow> (k, v) # (k', v') # kvs
           | Some j \<Rightarrow> if i < j then (k, v) # (k', v') # kvs
                       else (k', v') # alist_insert kvs k v))"

fun alist_replace :: "(string \<times> 'a) list \<Rightarrow> string \<Rightarrow> 'a \<Rightarrow> (string \<times> 'a) list" where
  "alist_replace [] k v = []"
| "alist_replace ((k', v') # kvs) k v =
     (if k' = k then (k, v) # kvs else (k', v') # alist_replace kvs k v)"

definition obj_set :: "(string \<times> 'a) list \<Rightarrow> string \<Rightarrow> 'a \<Rightarrow> (string \<times> 'a) list" where
  "obj_set kvs k v =
     (if alist_get kvs k = None then alist_insert kvs k v else alist_replace kvs k v)"

subsection \<open>Reading, writing and deleting a property\<close>

text \<open>\<^verbatim>\<open>obj[key]\<close>: a missing property reads as \<^verbatim>\<open>undefined\<close>. The engine reads
  properties of objects and arrays only.\<close>

fun get_prop :: "jv \<Rightarrow> string \<Rightarrow> jv" where
  "get_prop (JObj kvs) k = (case alist_get kvs k of None \<Rightarrow> JUndef | Some v \<Rightarrow> v)"
| "get_prop (JArr f es ps) k =
     (case index_of_key k of
        Some i \<Rightarrow> (if i < length es then es ! i else JUndef)
      | None \<Rightarrow> (case alist_get ps k of None \<Rightarrow> JUndef | Some v \<Rightarrow> v))"
| "get_prop v k = JUndef"

text \<open>\<^verbatim>\<open>key in obj\<close>.\<close>

fun has_prop :: "jv \<Rightarrow> string \<Rightarrow> bool" where
  "has_prop (JObj kvs) k = (alist_get kvs k \<noteq> None)"
| "has_prop (JArr f es ps) k =
     (case index_of_key k of
        Some i \<Rightarrow> i < length es
      | None \<Rightarrow> alist_get ps k \<noteq> None)"
| "has_prop v k = False"

text \<open>\<^verbatim>\<open>obj[key] = v\<close> on an object or an array. Writing an array element past the end
  grows the array.\<close>

fun set_prop :: "jv \<Rightarrow> string \<Rightarrow> jv \<Rightarrow> jv" where
  "set_prop (JObj kvs) k v = JObj (obj_set kvs k v)"
| "set_prop (JArr f es ps) k v =
     (case index_of_key k of
        Some i \<Rightarrow>
          (if i < length es then JArr f (es[i := v]) ps
           else JArr f (es @ replicate (i - length es) JUndef @ [v]) ps)
      | None \<Rightarrow> JArr f es (obj_set ps k v))"
| "set_prop w k v = w"

text \<open>\<^verbatim>\<open>delete obj[key]\<close>.\<close>

fun del_prop :: "jv \<Rightarrow> string \<Rightarrow> jv" where
  "del_prop (JObj kvs) k = JObj (alist_del kvs k)"
| "del_prop (JArr f es ps) k =
     (case index_of_key k of
        Some i \<Rightarrow> (if i < length es then JArr f (es[i := JUndef]) ps else JArr f es ps)
      | None \<Rightarrow> JArr f es (alist_del ps k))"
| "del_prop w k = w"

text \<open>\<^verbatim>\<open>Object.entries(obj)\<close> and \<^verbatim>\<open>Object.keys(obj)\<close>: of an array, the elements
  under their indices, then the named properties.\<close>

fun index_entries :: "nat \<Rightarrow> jv list \<Rightarrow> (string \<times> jv) list" where
  "index_entries i [] = []"
| "index_entries i (e # es) = (show_nat i, e) # index_entries (Suc i) es"

fun entries :: "jv \<Rightarrow> (string \<times> jv) list" where
  "entries (JObj kvs) = kvs"
| "entries (JArr f es ps) = index_entries 0 es @ ps"
| "entries v = []"

definition keys :: "jv \<Rightarrow> string list" where
  "keys v = map fst (entries v)"

text \<open>\<^verbatim>\<open>a.concat(b)\<close> for two arrays: a new array of the elements of both. It is made
  by the constructor of the receiver, so it is an \<^verbatim>\<open>IncludedArray\<close> when \<open>a\<close> is one;
  named properties are not copied. \<^verbatim>\<open>IncludedArray.from(b)\<close> is a new
  \<^verbatim>\<open>IncludedArray\<close> of the elements of \<open>b\<close>.\<close>

fun elems :: "jv \<Rightarrow> jv list" where
  "elems (JArr f es ps) = es"
| "elems v = []"

definition concat_arr :: "jv \<Rightarrow> jv \<Rightarrow> jv" where
  "concat_arr a b = JArr (isIncludedArray a) (elems a @ elems b) []"

definition IncludedArray_from :: "jv \<Rightarrow> jv" where
  "IncludedArray_from b = JArr True (elems b) []"

subsection \<open>lodash \<^verbatim>\<open>merge\<close> and \<^verbatim>\<open>cloneDeep\<close>\<close>

text \<open>
  \<^verbatim>\<open>_.merge(object, source)\<close> of the lodash library, on document nodes. It visits the
  keys of the source in their order. A source value that is an array is merged into the
  destination's value when that is an array, and into a new array otherwise; a source
  value that is a plain object is merged into the destination's value when that is an
  object or an array, and into a new object otherwise; any other source value is
  assigned, except that \<^verbatim>\<open>undefined\<close> does not replace an existing property. A
  source that is a string is visited as its characters; any other scalar source has no
  keys. The destination is changed in place and returned: the model returns it.
\<close>

fun baseMerge :: "jv \<Rightarrow> jv \<Rightarrow> jv"
  and baseMerge_elems :: "jv \<Rightarrow> nat \<Rightarrow> jv list \<Rightarrow> jv"
  and baseMerge_props :: "jv \<Rightarrow> (string \<times> jv) list \<Rightarrow> jv"
  and mergeValue :: "jv \<Rightarrow> string \<Rightarrow> jv \<Rightarrow> jv"
where
  "baseMerge d (JObj kvs) = baseMerge_props d kvs"
| "baseMerge d (JArr f es ps) = baseMerge_props (baseMerge_elems d 0 es) ps"
| "baseMerge d (JStr s) =
     foldl (\<lambda>a (k, c). set_prop a k c) d (index_entries 0 (map (\<lambda>c. JStr [c]) s))"
| "baseMerge d JUndef = d"
| "baseMerge d JNull = d"
| "baseMerge d (JBool b) = d"
| "baseMerge d (JNum n) = d"
| "baseMerge_elems d i [] = d"
| "baseMerge_elems d i (e # es) = baseMerge_elems (mergeValue d (show_nat i) e) (Suc i) es"
| "baseMerge_props d [] = d"
| "baseMerge_props d ((k, v) # kvs) = baseMerge_props (mergeValue d k v) kvs"
| "mergeValue d k (JArr f es ps) =
     set_prop d k
       (baseMerge (if isArray (get_prop d k) then get_prop d k else JArr False [] [])
          (JArr f es ps))"
| "mergeValue d k (JObj kvs) =
     set_prop d k
       (baseMerge (if isObject (get_prop d k) then get_prop d k else JObj []) (JObj kvs))"
| "mergeValue d k JUndef = (if has_prop d k then d else set_prop d k JUndef)"
| "mergeValue d k JNull = set_prop d k JNull"
| "mergeValue d k (JBool b) = set_prop d k (JBool b)"
| "mergeValue d k (JNum n) = set_prop d k (JNum n)"
| "mergeValue d k (JStr s) = set_prop d k (JStr s)"

text \<open>The entry point turns a destination that is \<^verbatim>\<open>undefined\<close> or \<^verbatim>\<open>null\<close> into a
  new object, and skips a source that is not truthy.\<close>

definition lodash_merge :: "jv \<Rightarrow> jv \<Rightarrow> jv" where
  "lodash_merge object source =
     (let d = (if object = JUndef \<or> object = JNull then JObj [] else object)
      in if truthy source then baseMerge d source else d)"

text \<open>\<^verbatim>\<open>_.cloneDeep(v)\<close> builds a new tree equal to \<open>v\<close>. Where values are trees and
  nothing is shared, the clone is the value itself; the section on the fetch cache
  below models the store and the addresses, where the difference shows.\<close>

definition cloneDeep :: "jv \<Rightarrow> jv" where
  "cloneDeep v = v"

text \<open>The value \<^verbatim>\<open>_.merge\<close> leaves under a key whose destination value is \<open>ov\<close> and
  whose source value is \<open>v\<close>.\<close>

fun mergedValue :: "jv \<Rightarrow> jv \<Rightarrow> jv" where
  "mergedValue ov (JArr f es ps) =
     baseMerge (if isArray ov then ov else JArr False [] []) (JArr f es ps)"
| "mergedValue ov (JObj kvs) = baseMerge (if isObject ov then ov else JObj []) (JObj kvs)"
| "mergedValue ov JUndef = ov"
| "mergedValue ov v = v"

section \<open>Results, the environment and the state of a merge\<close>

text \<open>
  A JavaScript call returns, throws, or does not return. The recursion of the engine is
  not bounded by its input (a file can refer to itself), so the engine takes fuel:
  \<open>Timeout\<close> is the outcome of a call that needs more recursion depth than the fuel
  allows, and an outcome other than \<open>Timeout\<close> is the outcome of the program.
\<close>

datatype exn =
    TypeError string
  | FileError string
  | ParseError string
  | BodyError string
  | IncludeArrayError jv string

datatype 'a outcome = Timeout | Throw exn | Return 'a

datatype level = Debug | Warn | Err

record purl =
  isHttp :: bool
  isLocal :: bool
  href :: string
  hrefWoHash :: string
  hash :: string
  path :: string

record component =
  ctype :: string
  curl :: string
  content :: jv
  cname :: string

text \<open>What \<^verbatim>\<open>fetch(url)\<close> of node-fetch gives: the promise is rejected, or it
  resolves to a response with \<^verbatim>\<open>ok\<close>, \<^verbatim>\<open>status\<close> and a body that
  \<^verbatim>\<open>res.text()\<close> reads (or fails to read).\<close>

datatype response = Rejected | Response bool nat "string option"

text \<open>
  The functions of Node.js and of the libraries (\<^verbatim>\<open>path\<close>, \<^verbatim>\<open>url\<close>, \<^verbatim>\<open>glob\<close>,
  \<^verbatim>\<open>fs\<close>, js-yaml, \<^verbatim>\<open>JSON\<close>, node-fetch) are parameters: the filesystem, the
  network and the parsers are whatever the environment says.
\<close>

record node_env =
  cwd :: string
  path_resolve :: "string \<Rightarrow> string \<Rightarrow> string"
  path_dirname :: "string \<Rightarrow> string"
  path_relative :: "string \<Rightarrow> string \<Rightarrow> string"
  path_basename :: "string \<Rightarrow> string \<Rightarrow> string"
  path_extname :: "string \<Rightarrow> string"
  posix_join :: "string \<Rightarrow> string \<Rightarrow> string"
  posix_dirname :: "string \<Rightarrow> string"
  url_resolve :: "string \<Rightarrow> string \<Rightarrow> string"
  glob_sync :: "string \<Rightarrow> string list"
  readFileSync :: "string \<Rightarrow> string option"
  yaml_load :: "string \<Rightarrow> exn + jv"
  json_parse :: "string \<Rightarrow> exn + jv"
  fetch :: "string \<Rightarrow> response"

text \<open>
  The modules \<^verbatim>\<open>./util\<close>, \<^verbatim>\<open>./ref\<close> and \<^verbatim>\<open>./components\<close> are imported by the merger
  and are not among the sources. Their pure helpers are parameters too, so that every
  theorem about the merger holds whatever they compute: \<^verbatim>\<open>parseUrl\<close>,
  \<^verbatim>\<open>sliceObject\<close>, \<^verbatim>\<open>mergeOrOverwrite\<close>, \<^verbatim>\<open>filterObject\<close>, \<^verbatim>\<open>appendObjectKeys\<close>,
  \<^verbatim>\<open>prependObjectKeys\<close> of \<^verbatim>\<open>./util\<close>; \<^verbatim>\<open>getRefType\<close> and \<^verbatim>\<open>shouldInclude\<close> of
  \<^verbatim>\<open>./ref\<close>; and of \<^verbatim>\<open>./components\<close> the name a component gets (from the
  \<^verbatim>\<open>ComponentNameResolver\<close> built on the components of the first pass, or without one)
  and the local reference \<^verbatim>\<open>getLocalRef\<close> writes for a class and a name.
\<close>

record util_env =
  parseUrl :: "jv \<Rightarrow> exn + purl"
  sliceObject :: "jv \<Rightarrow> string \<Rightarrow> jv"
  mergeOrOverwrite :: "jv \<Rightarrow> jv \<Rightarrow> jv"
  filterObject :: "jv \<Rightarrow> jv \<Rightarrow> jv"
  appendObjectKeys :: "jv \<Rightarrow> jv \<Rightarrow> jv"
  prependObjectKeys :: "jv \<Rightarrow> jv \<Rightarrow> jv"
  getRefType :: "string \<Rightarrow> string"
  shouldInclude :: "string \<Rightarrow> bool"
  componentName :: "component list option \<Rightarrow> string \<Rightarrow> string \<Rightarrow> string"
  localRef :: "string \<Rightarrow> string \<Rightarrow> string"

record env =
  node :: node_env
  util :: util_env

text \<open>
  The state a merge reads and writes: the fields of the \<^verbatim>\<open>Merger\<close> instance
  (\<^verbatim>\<open>config\<close>, \<^verbatim>\<open>baseDir\<close>, \<^verbatim>\<open>manager\<close>), the module-level \<^verbatim>\<open>cache\<close> of the
  \<^verbatim>\<open>http\<close> module, and the messages given to loglevel. A \<^verbatim>\<open>ComponentManager\<close> is its
  list of components and the name resolver it was built with (the components of the
  first pass; \<open>None\<close> for \<^verbatim>\<open>new ComponentManager()\<close>).
\<close>

record manager =
  components :: "component list"
  nameResolver :: "component list option"

record state =
  config :: jv
  baseDir :: string
  mgr :: manager
  cache :: "(string \<times> jv) list"
  logs :: "(level \<times> string) list"

type_synonym 'a prog = "state \<Rightarrow> ('a \<times> state) outcome"

definition ret :: "'a \<Rightarrow> 'a prog" where
  "ret v st = Return (v, st)"

definition throw :: "exn \<Rightarrow> 'a prog" where
  "throw e st = Throw e"

text \<open>\<open>seq m k\<close> runs \<open>m\<close> and then \<open>k\<close> on its value, in the state \<open>m\<close> left; an
  exception or a timeout of \<open>m\<close> is the outcome of the whole.\<close>

definition seq :: "'a prog \<Rightarrow> ('a \<Rightarrow> 'b prog) \<Rightarrow> 'b prog" where
  "seq m k st =
     (case m st of
        Timeout \<Rightarrow> Timeout
      | Throw e \<Rightarrow> Throw e
      | Return (v, st') \<Rightarrow> k v st')"

definition lift :: "exn + 'a \<Rightarrow> 'a prog" where
  "lift r = (case r of Inl e \<Rightarrow> throw e | Inr v \<Rightarrow> ret v)"

text \<open>\<open>reading f\<close> runs the program that \<open>f\<close> makes of the current state: a test or a
  value that reads \<^verbatim>\<open>this.manager\<close>, \<^verbatim>\<open>this.config\<close> or \<^verbatim>\<open>this.baseDir\<close>.\<close>

definition reading :: "(state \<Rightarrow> 'a prog) \<Rightarrow> 'a prog" where
  "reading f st = f st st"

definition log_msg :: "level \<Rightarrow> string \<Rightarrow> unit prog" where
  "log_msg l m st = Return ((), st\<lparr>logs := logs st @ [(l, m)]\<rparr>)"


section \<open>Reading documents: \<^verbatim>\<open>readYAML\<close> and \<^verbatim>\<open>download\<close>\<close>

text \<open>\<^verbatim>\<open>readYAML(filePath)\<close> of \<^verbatim>\<open>yaml.js\<close>: \<^verbatim>\<open>readFileSync\<close> throws when the file
  cannot be read, \<^verbatim>\<open>load\<close> throws when the text is not YAML.\<close>

definition readYAML :: "env \<Rightarrow> string \<Rightarrow> jv prog" where
  "readYAML env filePath =
     (case readFileSync (node env) filePath of
        None \<Rightarrow> throw (FileError filePath)
      | Some str \<Rightarrow> lift (yaml_load (node env) str))"

definition ends_with :: "string \<Rightarrow> string \<Rightarrow> bool" where
  "ends_with s suffix =
     (length suffix \<le> length s \<and> drop (length s - length suffix) s = suffix)"

text \<open>
  \<^verbatim>\<open>download(url)\<close> of the \<^verbatim>\<open>http\<close> module, with its module-level \<^verbatim>\<open>cache\<close>. A
  cached document that is truthy is returned (cloned) without fetching. A rejected
  \<^verbatim>\<open>fetch\<close> is caught, and so is a response that is not \<^verbatim>\<open>ok\<close>: both log an error
  and return a new empty object, and neither writes the cache. \<^verbatim>\<open>res.text()\<close> and
  the parsers are outside the \<^verbatim>\<open>try\<close>: what they throw, \<^verbatim>\<open>download\<close> throws.
\<close>

definition cache_put :: "string \<Rightarrow> jv \<Rightarrow> unit prog" where
  "cache_put url doc st = Return ((), st\<lparr>cache := obj_set (cache st) url doc\<rparr>)"

definition cache_lookup :: "(string \<times> jv) list \<Rightarrow> string \<Rightarrow> jv" where
  "cache_lookup c url = (case alist_get c url of None \<Rightarrow> JUndef | Some d \<Rightarrow> d)"

definition parse_body :: "env \<Rightarrow> string \<Rightarrow> string \<Rightarrow> jv prog" where
  "parse_body env url body =
     (if ends_with url ''.yml'' \<or> ends_with url ''.yaml'' then lift (yaml_load (node env) body)
      else if ends_with url ''.json'' then lift (json_parse (node env) body)
      else seq (log_msg Warn (''Cannot determine the file type: '' @ url))
             (\<lambda>_. lift (yaml_load (node env) body)))"

definition download :: "env \<Rightarrow> string \<Rightarrow> jv prog" where
  "download env url =
     reading (\<lambda>st.
      if truthy (cache_lookup (cache st) url)
      then ret (cloneDeep (cache_lookup (cache st) url))
      else seq (log_msg Warn (''fetching: '' @ url))
        (\<lambda>_. case fetch (node env) url of
            Rejected \<Rightarrow>
              seq (log_msg Err (''Failed to fetch: '' @ url)) (\<lambda>_. ret (JObj []))
          | Response ok status body \<Rightarrow>
              if \<not> ok
              then seq (log_msg Err (show_nat status @ '' returned: '' @ url))
                     (\<lambda>_. ret (JObj []))
              else (case body of
                  None \<Rightarrow> throw (BodyError url)
                | Some b \<Rightarrow>
                    seq (parse_body env url b)
                      (\<lambda>doc. seq (cache_put url doc) (\<lambda>_. ret (cloneDeep doc))))))"

section \<open>The component registry\<close>

text \<open>
  Modelled from the spec: the \<^verbatim>\<open>ComponentManager\<close> of \<^verbatim>\<open>./components\<close>, which the
  merger calls (\<^verbatim>\<open>exists\<close>, \<^verbatim>\<open>get\<close>, \<^verbatim>\<open>getOrCreate\<close>, \<^verbatim>\<open>getComponentsSection\<close>,
  \<^verbatim>\<open>components\<close>) and which is not among the sources. The spec (4.2, 3, 2): the
  registry is a table keyed by (class, absolute target), in registration order;
  \<open>exists(key)\<close> is true if a component for this key was already created in the
  current pass; \<open>getOrCreate(class, key)\<close> returns the existing component or creates
  and registers a new one; a component's content is the document node of its target,
  which the fetch/load collaborator returns for an absolute target (network or
  filesystem) and into which the fragment of the target points; the output section
  maps each class to a mapping from component names to contents.
\<close>

definition mgr_exists :: "manager \<Rightarrow> jv \<Rightarrow> bool" where
  "mgr_exists m key = list_ex (\<lambda>c. JStr (curl c) = key) (components m)"

definition mgr_get :: "manager \<Rightarrow> jv \<Rightarrow> component option" where
  "mgr_get m key = find (\<lambda>c. JStr (curl c) = key) (components m)"

fun find_component :: "string \<Rightarrow> string \<Rightarrow> nat \<Rightarrow> component list \<Rightarrow> (nat \<times> component) option" where
  "find_component t u i [] = None"
| "find_component t u i (c # cs) =
     (if ctype c = t \<and> curl c = u then Some (i, c) else find_component t u (Suc i) cs)"

definition load_target :: "env \<Rightarrow> string \<Rightarrow> jv prog" where
  "load_target env url =
     seq (lift (parseUrl (util env) (JStr url)))
       (\<lambda>p. seq (if isHttp p then download env (hrefWoHash p) else readYAML env (hrefWoHash p))
          (\<lambda>doc. ret (sliceObject (util env) doc (hash p))))"

definition register :: "component \<Rightarrow> (nat \<times> component) prog" where
  "register c st =
     Return ((length (components (mgr st)), c),
       st\<lparr>mgr := (mgr st)\<lparr>components := components (mgr st) @ [c]\<rparr>\<rparr>)"

definition getOrCreate :: "env \<Rightarrow> string \<Rightarrow> string \<Rightarrow> (nat \<times> component) prog" where
  "getOrCreate env t url =
     reading (\<lambda>st.
       case find_component t url 0 (components (mgr st)) of
         Some ic \<Rightarrow> ret ic
       | None \<Rightarrow>
           seq (load_target env url)
             (\<lambda>doc. reading (\<lambda>st1. register
                \<lparr>ctype = t, curl = url, content = doc,
                  cname = componentName (util env) (nameResolver (mgr st1)) t url\<rparr>)))"

text \<open>\<^verbatim>\<open>cmp.content = v\<close> for the component registered at position \<open>i\<close>.\<close>

fun update_at :: "nat \<Rightarrow> ('a \<Rightarrow> 'a) \<Rightarrow> 'a list \<Rightarrow> 'a list" where
  "update_at i f [] = []"
| "update_at 0 f (x # xs) = f x # xs"
| "update_at (Suc i) f (x # xs) = x # update_at i f xs"

definition set_content :: "nat \<Rightarrow> jv \<Rightarrow> unit prog" where
  "set_content i v st =
     Return ((), st\<lparr>mgr := (mgr st)\<lparr>components :=
       update_at i (\<lambda>c. c\<lparr>content := v\<rparr>) (components (mgr st))\<rparr>\<rparr>)"

definition getComponentsSection :: "manager \<Rightarrow> jv" where
  "getComponentsSection m =
     foldl (\<lambda>section c.
        set_prop section (ctype c)
          (set_prop (if truthy (get_prop section (ctype c)) then get_prop section (ctype c)
                     else JObj [])
             (cname c) (content c)))
       (JObj []) (components m)"

section \<open>The merger\<close>

subsection \<open>Directive keys\<close>

text \<open>\<^verbatim>\<open>INCLUDE_PATTERN = /^\$include(#\w+?)?(\.\w+?)?$/\<close>: the two groups of a match.
  A word character is an ASCII letter, a digit or the underscore, so a group, when it
  is there, takes all the word characters after its \<^verbatim>\<open>#\<close> or \<^verbatim>\<open>.\<close>.\<close>

definition is_word_char :: "char \<Rightarrow> bool" where
  "is_word_char c =
     (c \<in> set ''abcdefghijklmnopqrstuvwxyzABCDEFGHIJKLMNOPQRSTUVWXYZ0123456789_'')"

definition match_group :: "char \<Rightarrow> string \<Rightarrow> string option \<times> string" where
  "match_group c s =
     (case s of
        [] \<Rightarrow> (None, s)
      | x # xs \<Rightarrow>
          if x = c \<and> takeWhile is_word_char xs \<noteq> []
          then (Some (x # takeWhile is_word_char xs), dropWhile is_word_char xs)
          else (None, s))"

definition match_include :: "string \<Rightarrow> (string option \<times> string option) option" where
  "match_include key =
     (if take 8 key = ''$include''
      then (let (g1, r1) = match_group (CHR ''#'') (drop 8 key);
                (g2, r2) = match_group (CHR ''.'') r1
            in if r2 = [] then Some (g1, g2) else None)
      else None)"

definition isInclude :: "string \<Rightarrow> bool" where
  "isInclude key = (match_include key \<noteq> None)"

definition isRef :: "string \<Rightarrow> string \<Rightarrow> bool" where
  "isRef key jsonPath = (key = ''$ref'' \<or> ends_with jsonPath ''discriminator.mapping'')"

definition getIncludeClass :: "string \<Rightarrow> string option" where
  "getIncludeClass key =
     (case match_include key of
        None \<Rightarrow> None
      | Some (g1, None) \<Rightarrow> None
      | Some (g1, Some pattern) \<Rightarrow> if pattern = [] then None else Some (drop 1 pattern))"

subsection \<open>\<^verbatim>\<open>processInclude\<close>\<close>

text \<open>\<^verbatim>\<open>v[k]\<close> where \<open>v\<close> may be anything: reading a property of \<^verbatim>\<open>undefined\<close> or
  \<^verbatim>\<open>null\<close> throws a \<^verbatim>\<open>TypeError\<close>.\<close>

definition member :: "jv \<Rightarrow> string \<Rightarrow> exn + jv" where
  "member v k =
     (if v = JUndef \<or> v = JNull then Inl (TypeError (''Cannot read properties: '' @ k))
      else Inr (get_prop v k))"

definition processInclude :: "env \<Rightarrow> string \<Rightarrow> jv \<Rightarrow> jv \<Rightarrow> jv prog" where
  "processInclude env key obj cfg =
     (case getIncludeClass key of
        None \<Rightarrow> ret obj
      | Some clazz \<Rightarrow>
          if clazz = [] then ret obj
          else seq (lift (member cfg ''include''))
            (\<lambda>inc. seq (lift (member inc clazz))
               (\<lambda>clazzConfig.
                  if \<not> truthy clazzConfig
                  then seq (log_msg Warn (''$include classname '' @ [CHR 0x27] @ clazz
                              @ '' specified, but no configuration found.''))
                         (\<lambda>_. ret obj)
                  else
                    (let obj1 = filterObject (util env) obj (get_prop clazzConfig ''filter'');
                         obj2 = appendObjectKeys (util env) obj1 (get_prop clazzConfig ''prefix'');
                         obj3 = prependObjectKeys (util env) obj2 (get_prop clazzConfig ''suffix'')
                     in ret obj3))))"


subsection \<open>Targets\<close>

text \<open>The target of a remote reference (\<^verbatim>\<open>handleRef\<close> lines 125--130,
  \<^verbatim>\<open>handleInclude\<close> lines 179--184): the value resolved against the directory of the
  containing URL or file. \<^verbatim>\<open>path.posix.join\<close> and \<^verbatim>\<open>url.resolve\<close> of Node.js throw a
  \<^verbatim>\<open>TypeError\<close> on an argument that is not a string.\<close>

definition resolveTargetOf :: "env \<Rightarrow> purl \<Rightarrow> jv \<Rightarrow> exn + string" where
  "resolveTargetOf env pFile val =
     (case val of
        JStr v \<Rightarrow>
          if isHttp pFile
          then Inr (url_resolve (node env) (path_dirname (node env) (hrefWoHash pFile) @ ''/'') v)
          else Inr (posix_join (node env) (posix_dirname (node env) (hrefWoHash pFile)) v)
      | _ \<Rightarrow> Inl (TypeError ''argument must be a string''))"

definition resolveTarget :: "env \<Rightarrow> purl \<Rightarrow> jv \<Rightarrow> string prog" where
  "resolveTarget env pFile val = lift (resolveTargetOf env pFile val)"

text \<open>The three branches of \<^verbatim>\<open>handleRef\<close> (lines 107--135) up to the registry: the
  absolute target the component is registered under and the file its content is
  resolved in; \<open>None\<close> is the early return of a local reference whose value the
  registry already knows. Of the state they read the manager only.\<close>

definition refTargetOf ::
  "env \<Rightarrow> purl \<Rightarrow> purl \<Rightarrow> jv \<Rightarrow> manager \<Rightarrow> exn + (string \<times> string) option" where
  "refTargetOf env pRef pFile val m =
     (if isHttp pRef then Inr (Some (href pRef, hrefWoHash pRef))
      else if isLocal pRef then
        (if mgr_exists m val then Inr None
         else Inr (Some (hrefWoHash pFile @ (if hash pRef = ''#/'' then [] else hash pRef),
                         hrefWoHash pFile)))
      else (case resolveTargetOf env pFile val of
              Inl e \<Rightarrow> Inl e
            | Inr target \<Rightarrow>
                (case parseUrl (util env) (JStr target) of
                   Inl e \<Rightarrow> Inl e
                 | Inr parsedTarget \<Rightarrow> Inr (Some (target, hrefWoHash parsedTarget)))))"

definition refTarget :: "env \<Rightarrow> purl \<Rightarrow> purl \<Rightarrow> jv \<Rightarrow> (string \<times> string) option prog" where
  "refTarget env pRef pFile val = reading (\<lambda>st. lift (refTargetOf env pRef pFile val (mgr st)))"

subsection \<open>The end of \<^verbatim>\<open>handleInclude\<close>\<close>

text \<open>
  Lines 209--225 of the merger: what \<^verbatim>\<open>handleInclude\<close> does with the resolved content
  \<open>merged\<close>, where \<open>obj\<close> is the destination after line 159 has written the directive
  into it. The first component of the result is the value \<^verbatim>\<open>handleInclude\<close> returns;
  the second is the object the caller passed, as the call leaves it
  (\<^verbatim>\<open>obj.concat\<close> and \<^verbatim>\<open>IncludedArray.from\<close> make a new array and leave it alone,
  \<^verbatim>\<open>_merge\<close> and \<^verbatim>\<open>delete\<close> change it in place).
\<close>

definition finishInclude :: "env \<Rightarrow> jv \<Rightarrow> string \<Rightarrow> jv \<Rightarrow> string \<Rightarrow> jv \<Rightarrow> (jv \<times> jv) prog" where
  "finishInclude env obj key val jsonPath merged =
     (if isArray merged then
        (if isArray obj then ret (concat_arr obj merged, obj)
         else if length (keys obj) = 1 then ret (IncludedArray_from merged, obj)
         else throw (IncludeArrayError val jsonPath))
      else
        reading (\<lambda>st.
          seq (processInclude env key merged (config st))
            (\<lambda>processed.
               let obj' = del_prop (lodash_merge obj processed) key in ret (obj', obj'))))"

subsection \<open>\<^verbatim>\<open>mergeRefs\<close>, \<^verbatim>\<open>handleRef\<close>, \<^verbatim>\<open>handleInclude\<close>\<close>

definition debug_msg :: "env \<Rightarrow> string \<Rightarrow> string \<Rightarrow> string \<Rightarrow> unit prog" where
  "debug_msg env what jsonPath file =
     reading (\<lambda>st. log_msg Debug
        (what @ jsonPath @ '' file='' @ path_relative (node env) (baseDir st) file))"

text \<open>
  The three methods call each other, and a file can refer to itself, so they are defined
  by recursion on fuel: every call of a method takes one unit. The body of each method
  is written first, over the three methods it may call (\<open>callee\<close>: the methods with
  one unit less); \<open>methods_at\<close> ties the knot, and the equations the methods satisfy
  are the lemmas \<open>mergeRefs_Suc\<close>, \<open>handleRef_Suc\<close>, \<open>handleInclude_Suc\<close> below.

  \<open>mergeRefs_for\<close> is the \<^verbatim>\<open>for\<close> loop of \<^verbatim>\<open>mergeRefs\<close> over the entries that are
  left, with \<open>r\<close> the value of \<^verbatim>\<open>ret\<close>; \<open>includeFiles_for\<close> is the \<^verbatim>\<open>for\<close> loop of
  \<^verbatim>\<open>handleInclude\<close> over the matched files, with \<open>c\<close> the value of \<^verbatim>\<open>content\<close>.
  \<^verbatim>\<open>handleRef\<close> changes \<^verbatim>\<open>obj\<close> in place and returns nothing: the model returns the
  object. For the pair \<^verbatim>\<open>handleInclude\<close> returns see \<open>finishInclude\<close>.
\<close>

record methods =
  call_mergeRefs :: "jv \<Rightarrow> string \<Rightarrow> string \<Rightarrow> jv prog"
  call_handleRef :: "jv \<Rightarrow> string \<Rightarrow> jv \<Rightarrow> string \<Rightarrow> string \<Rightarrow> jv prog"
  call_handleInclude :: "jv \<Rightarrow> string \<Rightarrow> jv \<Rightarrow> string \<Rightarrow> string \<Rightarrow> (jv \<times> jv) prog"

primrec mergeRefs_for ::
  "methods \<Rightarrow> env \<Rightarrow> (string \<times> jv) list \<Rightarrow> jv \<Rightarrow> string \<Rightarrow> string \<Rightarrow> jv prog" where
  "mergeRefs_for callee env [] r file jsonPath = ret r"
| "mergeRefs_for callee env (e # es) r file jsonPath =
     seq (let key = fst e; val = snd e in
          if isRef key jsonPath then call_handleRef callee r key val file jsonPath
          else if isInclude key then
            seq (call_handleInclude callee r key val file jsonPath) (\<lambda>res. ret (fst res))
          else
            seq (call_mergeRefs callee val file (jsonPath @ ''.'' @ key))
              (\<lambda>merged.
                 if isIncludedArray merged \<and> isArray r
                 then ret (mergeOrOverwrite (util env) r merged)
                 else ret (set_prop r key
                             (mergeOrOverwrite (util env) (get_prop r key) merged))))
       (\<lambda>r'. mergeRefs_for callee env es r' file jsonPath)"

definition mergeRefs_body :: "methods \<Rightarrow> env \<Rightarrow> jv \<Rightarrow> string \<Rightarrow> string \<Rightarrow> jv prog" where
  "mergeRefs_body callee env obj file jsonPath =
     (if \<not> isObject obj then ret obj
      else mergeRefs_for callee env (entries obj)
             (if isArray obj then JArr False [] [] else JObj []) file jsonPath)"

definition handleRef_body ::
  "methods \<Rightarrow> env \<Rightarrow> jv \<Rightarrow> string \<Rightarrow> jv \<Rightarrow> string \<Rightarrow> string \<Rightarrow> jv prog" where
  "handleRef_body callee env obj key val file jsonPath =
     seq (debug_msg env ''ref    : '' jsonPath file)
       (\<lambda>_. let obj1 = set_prop obj key (mergeOrOverwrite (util env) (get_prop obj key) val) in
        seq (lift (parseUrl (util env) val))
          (\<lambda>pRef. seq (lift (parseUrl (util env) (JStr file)))
             (\<lambda>pFile.
                let refType = getRefType (util env) jsonPath in
                if shouldInclude (util env) refType
                then seq (call_handleInclude callee obj1 key val file jsonPath)
                       (\<lambda>res. ret (snd res))
                else
                  seq (refTarget env pRef pFile val)
                    (\<lambda>t. case t of
                        None \<Rightarrow> ret obj1
                      | Some (target, nextFile) \<Rightarrow>
                          seq (reading (\<lambda>st. ret (mgr_exists (mgr st) (JStr target))))
                            (\<lambda>cmpExists. seq (getOrCreate env refType target)
                               (\<lambda>(i, cmp).
                                  let obj2 = set_prop obj1 key
                                       (JStr (localRef (util env) (ctype cmp) (cname cmp)))
                                  in if \<not> cmpExists
                                     then seq (call_mergeRefs callee (content cmp) nextFile
                                                 (jsonPath @ ''.'' @ key))
                                            (\<lambda>c. seq (set_content i c) (\<lambda>_. ret obj2))
                                     else ret obj2))))))"

primrec includeFiles_for ::
  "methods \<Rightarrow> env \<Rightarrow> string list \<Rightarrow> jv \<Rightarrow> string \<Rightarrow> string \<Rightarrow> string \<Rightarrow> jv prog" where
  "includeFiles_for callee env [] c key file jsonPath = ret c"
| "includeFiles_for callee env (mf # mfs) c key file jsonPath =
     (let basename = path_basename (node env) mf (path_extname (node env) mf) in
      seq (call_handleInclude callee (JObj [(key, JStr mf)]) key (JStr mf) file
             (jsonPath @ ''.'' @ basename))
        (\<lambda>res. includeFiles_for callee env mfs (set_prop c basename (fst res)) key file jsonPath))"

text \<open>
  The name \<^verbatim>\<open>download\<close> in the merger. Line 9 imports it by name,
  \<^verbatim>\<open>import { download } from "./http"\<close>, and the \<^verbatim>\<open>http\<close> module exports one thing,
  a default object that has the function as a property
  (\<^verbatim>\<open>export default { download }\<close>): the module has no export of that name, so in
  the merger the name is bound to \<^verbatim>\<open>undefined\<close>, and the calls of lines 167 and 187
  throw a \<^verbatim>\<open>TypeError\<close> before anything is fetched and before the cache is read.
\<close>

definition merger_download :: "string \<Rightarrow> jv prog" where
  "merger_download url = throw (TypeError ''download is not a function'')"

text \<open>Lines 164--206: the content an include directive points at and the file it is
  resolved in; \<open>None\<close> is the early return of line 173.\<close>

definition includeContent ::
  "methods \<Rightarrow> env \<Rightarrow> purl \<Rightarrow> purl \<Rightarrow> string \<Rightarrow> jv \<Rightarrow> string \<Rightarrow> string
     \<Rightarrow> (jv \<times> string) option prog" where
  "includeContent callee env pRef pFile key val file jsonPath =
     (if isHttp pRef then
        seq (merger_download (hrefWoHash pRef)) (\<lambda>c. ret (Some (c, hrefWoHash pRef)))
      else if isLocal pRef then
        reading (\<lambda>st.
          if mgr_get (mgr st) val \<noteq> None then ret None
          else seq (readYAML env file) (\<lambda>c. ret (Some (c, hrefWoHash pFile))))
      else
        seq (resolveTarget env pFile val)
          (\<lambda>target. seq (lift (parseUrl (util env) (JStr target)))
             (\<lambda>parsedTarget.
                seq (if isHttp parsedTarget
                     then merger_download (hrefWoHash parsedTarget)
                     else if CHR ''*'' \<in> set (hrefWoHash parsedTarget)
                     then includeFiles_for callee env
                            (map (path_relative (node env)
                                    (path_dirname (node env) (hrefWoHash pFile)))
                               (glob_sync (node env) (hrefWoHash parsedTarget)))
                            (JObj []) key file jsonPath
                     else readYAML env (hrefWoHash parsedTarget))
                  (\<lambda>c. ret (Some (c, hrefWoHash parsedTarget))))))"

text \<open>Lines 161--208: the resolved content of an include directive, that is the content
  sliced by the fragment of the target and merged in the file it came from.\<close>

definition resolveInclude ::
  "methods \<Rightarrow> env \<Rightarrow> string \<Rightarrow> jv \<Rightarrow> string \<Rightarrow> string \<Rightarrow> jv option prog" where
  "resolveInclude callee env key val file jsonPath =
     seq (lift (parseUrl (util env) val))
       (\<lambda>pRef. seq (lift (parseUrl (util env) (JStr file)))
          (\<lambda>pFile.
             seq (includeContent callee env pRef pFile key val file jsonPath)
               (\<lambda>r. case r of
                   None \<Rightarrow> ret None
                 | Some (c, nextFile) \<Rightarrow>
                     seq (call_mergeRefs callee (sliceObject (util env) c (hash pRef))
                            nextFile jsonPath)
                       (\<lambda>merged. ret (Some merged)))))"

definition handleInclude_body ::
  "methods \<Rightarrow> env \<Rightarrow> jv \<Rightarrow> string \<Rightarrow> jv \<Rightarrow> string \<Rightarrow> string \<Rightarrow> (jv \<times> jv) prog" where
  "handleInclude_body callee env obj key val file jsonPath =
     seq (debug_msg env ''include: '' jsonPath file)
       (\<lambda>_. let obj1 = set_prop obj key (mergeOrOverwrite (util env) (get_prop obj key) val) in
        seq (resolveInclude callee env key val file jsonPath)
          (\<lambda>r. case r of
              None \<Rightarrow> ret (obj1, obj1)
            | Some merged \<Rightarrow> finishInclude env obj1 key val jsonPath merged))"

primrec methods_at :: "nat \<Rightarrow> env \<Rightarrow> methods" where
  "methods_at 0 env =
     \<lparr>call_mergeRefs = (\<lambda>obj file jsonPath st. Timeout),
      call_handleRef = (\<lambda>obj key val file jsonPath st. Timeout),
      call_handleInclude = (\<lambda>obj key val file jsonPath st. Timeout)\<rparr>"
| "methods_at (Suc n) env =
     \<lparr>call_mergeRefs = mergeRefs_body (methods_at n env) env,
      call_handleRef = handleRef_body (methods_at n env) env,
      call_handleInclude = handleInclude_body (methods_at n env) env\<rparr>"

definition mergeRefs :: "nat \<Rightarrow> env \<Rightarrow> jv \<Rightarrow> string \<Rightarrow> string \<Rightarrow> jv prog" where
  "mergeRefs n env = call_mergeRefs (methods_at n env)"

definition handleRef :: "nat \<Rightarrow> env \<Rightarrow> jv \<Rightarrow> string \<Rightarrow> jv \<Rightarrow> string \<Rightarrow> string \<Rightarrow> jv prog" where
  "handleRef n env = call_handleRef (methods_at n env)"

definition handleInclude ::
  "nat \<Rightarrow> env \<Rightarrow> jv \<Rightarrow> string \<Rightarrow> jv \<Rightarrow> string \<Rightarrow> string \<Rightarrow> (jv \<times> jv) prog" where
  "handleInclude n env = call_handleInclude (methods_at n env)"

subsection \<open>\<^verbatim>\<open>merge\<close>\<close>

text \<open>\<^verbatim>\<open>Merger.merge(doc, docPath)\<close>: two passes of \<^verbatim>\<open>mergeRefs\<close> over the same
  document, each with a new \<^verbatim>\<open>ComponentManager\<close>, the second built on the name
  resolver of the components of the first. The file is in strict mode, so the assignment
  \<^verbatim>\<open>doc.components = ...\<close> throws when the merged document is not an object.\<close>

definition new_manager :: "component list option \<Rightarrow> unit prog" where
  "new_manager nr st = Return ((), st\<lparr>mgr := \<lparr>components = [], nameResolver = nr\<rparr>\<rparr>)"

definition set_baseDir :: "string \<Rightarrow> unit prog" where
  "set_baseDir d st = Return ((), st\<lparr>baseDir := d\<rparr>)"

definition merge :: "nat \<Rightarrow> env \<Rightarrow> jv \<Rightarrow> string \<Rightarrow> jv prog" where
  "merge n env doc docPath =
     (let docPath1 = path_resolve (node env) (cwd (node env)) docPath in
      seq (set_baseDir (path_dirname (node env) docPath1))
        (\<lambda>_. seq (lift (parseUrl (util env) (JStr docPath1)))
           (\<lambda>p. seq (new_manager None)
              (\<lambda>_. seq (mergeRefs n env doc (path p) ''$'')
                 (\<lambda>_. seq (reading (\<lambda>st. new_manager (Some (components (mgr st)))))
                    (\<lambda>_. seq (mergeRefs n env doc (path p) ''$'')
                       (\<lambda>doc1. reading (\<lambda>st.
                          if isObject doc1
                          then ret (set_prop doc1 ''components''
                                     (lodash_merge (get_prop doc1 ''components'')
                                        (getComponentsSection (mgr st))))
                          else throw (TypeError ''Cannot set properties: components'')))))))))"


section \<open>A concrete environment\<close>

text \<open>
  The theorems below hold for every environment. Their witnesses and the counterexamples
  run the merger, so they need one: a POSIX machine with a given table of files, a
  network with a given table of responses, and a parser with a given table from texts to
  document nodes. The helpers of \<^verbatim>\<open>./util\<close>, \<^verbatim>\<open>./ref\<close> and \<^verbatim>\<open>./components\<close> are
  modelled from the spec, as far as the spec describes them.
\<close>

definition last_segment :: "string \<Rightarrow> string" where
  "last_segment p = rev (takeWhile (\<lambda>c. c \<noteq> CHR ''/'') (rev p))"

definition demo_dirname :: "string \<Rightarrow> string" where
  "demo_dirname p = rev (drop 1 (dropWhile (\<lambda>c. c \<noteq> CHR ''/'') (rev p)))"

definition strip_dot_slash :: "string \<Rightarrow> string" where
  "strip_dot_slash v = (if take 2 v = ''./'' then drop 2 v else v)"

definition demo_extname :: "string \<Rightarrow> string" where
  "demo_extname p =
     (let b = last_segment p in
      if CHR ''.'' \<in> set (drop 1 b)
      then CHR ''.'' # rev (takeWhile (\<lambda>c. c \<noteq> CHR ''.'') (rev b))
      else [])"

definition demo_basename :: "string \<Rightarrow> string \<Rightarrow> string" where
  "demo_basename p ext =
     (let b = last_segment p in
      if ext \<noteq> [] \<and> ends_with b ext \<and> b \<noteq> ext then take (length b - length ext) b else b)"

definition demo_relative :: "string \<Rightarrow> string \<Rightarrow> string" where
  "demo_relative from to =
     (if take (length from + 1) to = from @ ''/'' then drop (length from + 1) to else to)"

definition demo_node :: "(string \<times> string) list \<Rightarrow> (string \<times> response) list
    \<Rightarrow> (string \<times> jv) list \<Rightarrow> (string \<times> string list) list \<Rightarrow> node_env" where
  "demo_node files net parser globs =
     \<lparr>cwd = ''/root'',
      path_resolve = (\<lambda>d p. if take 1 p = ''/'' then p else d @ ''/'' @ strip_dot_slash p),
      path_dirname = demo_dirname,
      path_relative = demo_relative,
      path_basename = demo_basename,
      path_extname = demo_extname,
      posix_join = (\<lambda>d v. d @ ''/'' @ strip_dot_slash v),
      posix_dirname = demo_dirname,
      url_resolve = (\<lambda>b v. b @ strip_dot_slash v),
      glob_sync = (\<lambda>pat. case alist_get globs pat of None \<Rightarrow> [] | Some fs \<Rightarrow> fs),
      readFileSync = alist_get files,
      yaml_load = (\<lambda>t. case alist_get parser t of
                         None \<Rightarrow> Inl (ParseError t) | Some d \<Rightarrow> Inr d),
      json_parse = (\<lambda>t. case alist_get parser t of
                          None \<Rightarrow> Inl (ParseError t) | Some d \<Rightarrow> Inr d),
      fetch = (\<lambda>u. case alist_get net u of None \<Rightarrow> Rejected | Some r \<Rightarrow> r)\<rparr>"

text \<open>Modelled from the spec: \<^verbatim>\<open>parseUrl\<close> of \<^verbatim>\<open>./util\<close> (the Locator, 4.1 and 3): a
  target is an in-document pointer (\<^verbatim>\<open>#/...\<close>), a network URL (it has a scheme) or a
  local-file reference, with its fragment (the \<^verbatim>\<open>#...\<close> suffix) separated out.\<close>

definition demo_parseUrl :: "jv \<Rightarrow> exn + purl" where
  "demo_parseUrl v =
     (case v of
        JStr s \<Rightarrow>
          Inr \<lparr>isHttp = (take 7 s = ''http://'' \<or> take 8 s = ''https://''),
               isLocal = (take 1 s = ''#''),
               href = s,
               hrefWoHash = takeWhile (\<lambda>c. c \<noteq> CHR ''#'') s,
               hash = dropWhile (\<lambda>c. c \<noteq> CHR ''#'') s,
               path = takeWhile (\<lambda>c. c \<noteq> CHR ''#'') s\<rparr>
      | _ \<Rightarrow> Inl (TypeError ''url must be a string''))"

text \<open>Modelled from the spec: \<^verbatim>\<open>sliceObject\<close> of \<^verbatim>\<open>./util\<close> (3, 4.4): the fragment is
  a pointer into the fetched content, the empty fragment is the whole document.\<close>

fun split_on :: "char \<Rightarrow> string \<Rightarrow> string \<Rightarrow> string list" where
  "split_on c acc [] = [rev acc]"
| "split_on c acc (x # xs) = (if x = c then rev acc # split_on c [] xs else split_on c (x # acc) xs)"

definition demo_sliceObject :: "jv \<Rightarrow> string \<Rightarrow> jv" where
  "demo_sliceObject doc h =
     foldl get_prop doc (filter (\<lambda>k. k \<noteq> []) (split_on (CHR ''/'') [] (drop 1 h)))"

text \<open>Modelled from the spec: \<^verbatim>\<open>mergeOrOverwrite\<close> of \<^verbatim>\<open>./util\<close> (4.4): objects merge
  recursively key-by-key, non-object values are overwritten by the later value.\<close>

definition demo_mergeOrOverwrite :: "jv \<Rightarrow> jv \<Rightarrow> jv" where
  "demo_mergeOrOverwrite v1 v2 = (if isObject v1 \<and> isObject v2 then lodash_merge v1 v2 else v2)"

text \<open>Modelled from the spec: the helpers of the include post-processor (4.5), a filter
  that keeps the keys starting with a given string, and a string put after or before
  every top-level key. A missing option leaves the mapping as it is.\<close>

definition map_keys :: "(string \<Rightarrow> string) \<Rightarrow> jv \<Rightarrow> jv" where
  "map_keys f obj = (case obj of JObj kvs \<Rightarrow> JObj (map (\<lambda>(k, v). (f k, v)) kvs) | _ \<Rightarrow> obj)"

definition demo_filterObject :: "jv \<Rightarrow> jv \<Rightarrow> jv" where
  "demo_filterObject obj f =
     (case (obj, f) of
        (JObj kvs, JStr p) \<Rightarrow> JObj (filter (\<lambda>(k, v). take (length p) k = p) kvs)
      | _ \<Rightarrow> obj)"

definition demo_appendObjectKeys :: "jv \<Rightarrow> jv \<Rightarrow> jv" where
  "demo_appendObjectKeys obj s = (case s of JStr x \<Rightarrow> map_keys (\<lambda>k. k @ x) obj | _ \<Rightarrow> obj)"

definition demo_prependObjectKeys :: "jv \<Rightarrow> jv \<Rightarrow> jv" where
  "demo_prependObjectKeys obj s = (case s of JStr x \<Rightarrow> map_keys (\<lambda>k. x @ k) obj | _ \<Rightarrow> obj)"

text \<open>Modelled from the spec: the class of a reference is a reference-type discriminator
  such as \<^verbatim>\<open>schemas\<close> (3), no class is marked inline, a candidate name is the last path
  segment of the target (4.3), and the local pointer of a component is made of its class
  and name (8).\<close>

definition demo_util :: util_env where
  "demo_util =
     \<lparr>parseUrl = demo_parseUrl,
      sliceObject = demo_sliceObject,
      mergeOrOverwrite = demo_mergeOrOverwrite,
      filterObject = demo_filterObject,
      appendObjectKeys = demo_appendObjectKeys,
      prependObjectKeys = demo_prependObjectKeys,
      getRefType = (\<lambda>jsonPath. ''schemas''),
      shouldInclude = (\<lambda>t. False),
      componentName = (\<lambda>nr t url. last_segment url),
      localRef = (\<lambda>t n. ''#/components/'' @ t @ ''/'' @ n)\<rparr>"

definition demo_env :: "(string \<times> string) list \<Rightarrow> (string \<times> response) list
    \<Rightarrow> (string \<times> jv) list \<Rightarrow> (string \<times> string list) list \<Rightarrow> env" where
  "demo_env files net parser globs = \<lparr>node = demo_node files net parser globs, util = demo_util\<rparr>"

text \<open>The state of a process that has not merged anything yet, with the configuration
  \<open>cfg\<close> given to \<^verbatim>\<open>new Merger(config)\<close>.\<close>

definition init_state :: "jv \<Rightarrow> state" where
  "init_state cfg =
     \<lparr>config = cfg, baseDir = [], mgr = \<lparr>components = [], nameResolver = None\<rparr>,
      cache = [], logs = []\<rparr>"

definition env_a :: env where
  "env_a = demo_env
     [(''/root/l.yaml'', ''L''), (''/root/f.yaml'', ''F'')] []
     [(''L'', JArr False [JNum 1, JNum 2] []), (''F'', JObj [(''a'', JNum 2)])] []"



text \<open>A network on which every fetch is rejected, and one that answers with a status
  200 and a body that cannot be read: \<^verbatim>\<open>res.text()\<close> rejects.\<close>

definition env_off :: env where
  "env_off = demo_env [] [] [] []"

definition env_cut :: env where
  "env_cut = demo_env [] [(''http://h/x.yaml'', Response True 200 None)] [] []"

text \<open>Two networks that serve different documents under the same URL, a document with
  no directive, and the state of the process after \<^verbatim>\<open>download\<close> has fetched the URL on
  the first network.\<close>

definition env_n1 :: env where
  "env_n1 = demo_env [] [(''http://h/x.yaml'', Response True 200 (Some ''X1''))]
     [(''X1'', JObj [(''v'', JNum 1)]), (''X2'', JObj [(''v'', JNum 2)])] []"



definition after_first_download :: state where
  "after_first_download =
     \<lparr>config = JNull, baseDir = [],
      mgr = \<lparr>components = [], nameResolver = None\<rparr>,
      cache = [(''http://h/x.yaml'', JObj [(''v'', JNum 1)])],
      logs = [(Warn, ''fetching: http://h/x.yaml'')]\<rparr>"

text \<open>A document that refers to the URL, and the state a new process is in after it
  has merged that document on the first network.\<close>

definition doc_u :: jv where
  "doc_u = JObj [(''r'', JObj [(''$ref'', JStr ''http://h/x.yaml'')])]"

definition after_ref_merge :: state where
  "after_ref_merge =
     \<lparr>config = JNull, baseDir = ''/root'',
      mgr = \<lparr>components =
               [\<lparr>ctype = ''schemas'', curl = ''http://h/x.yaml'',
                  content = JObj [(''v'', JNum 1)], cname = ''x.yaml''\<rparr>],
             nameResolver = Some
               [\<lparr>ctype = ''schemas'', curl = ''http://h/x.yaml'',
                  content = JObj [(''v'', JNum 1)], cname = ''x.yaml''\<rparr>]\<rparr>,
      cache = [(''http://h/x.yaml'', JObj [(''v'', JNum 1)])],
      logs = [(Debug, ''ref    : $.r file=doc.yaml''),
              (Warn, ''fetching: http://h/x.yaml''),
              (Debug, ''ref    : $.r file=doc.yaml'')]\<rparr>"


text \<open>A file whose schema refers back to itself, a document that refers to that schema,
  and a file that includes itself.\<close>

definition env_r :: env where
  "env_r = demo_env [(''/root/n.yaml'', ''N''), (''/root/a.yaml'', ''A'')] []
     [(''N'', JObj [(''Node'', JObj [(''next'', JObj [(''$ref'', JStr ''#/Node'')])])]),
      (''A'', JObj [(''$include'', JStr ''./a.yaml'')])] []"

definition doc_r :: jv where
  "doc_r = JObj [(''root'', JObj [(''$ref'', JStr ''./n.yaml#/Node'')])]"

definition doc_c :: jv where
  "doc_c = JObj [(''$include'', JStr ''./a.yaml'')]"

text \<open>The state in which the reference back to \<^verbatim>\<open>Node\<close> is handled: the component of
  \<^verbatim>\<open>Node\<close> is registered and its content is being resolved.\<close>

definition node_registered :: state where
  "node_registered =
     \<lparr>config = JNull, baseDir = ''/root'',
      mgr = \<lparr>components =
               [\<lparr>ctype = ''schemas'', curl = ''/root/n.yaml#/Node'',
                  content = JObj [(''next'', JObj [(''$ref'', JStr ''#/Node'')])],
                  cname = ''Node''\<rparr>],
             nameResolver = None\<rparr>,
      cache = [], logs = []\<rparr>"



section \<open>Specification predicates\<close>

text \<open>\<open>pres R m\<close>: whenever the program \<open>m\<close> returns, the state it started in and the
  state it leaves are related by \<open>R\<close>.\<close>

definition pres :: "(state \<Rightarrow> state \<Rightarrow> bool) \<Rightarrow> 'a prog \<Rightarrow> bool" where
  "pres R m = (\<forall>st v st'. m st = Return (v, st') \<longrightarrow> R st st')"

definition methods_pres :: "(state \<Rightarrow> state \<Rightarrow> bool) \<Rightarrow> methods \<Rightarrow> bool" where
  "methods_pres R c =
     ((\<forall>obj file jsonPath. pres R (call_mergeRefs c obj file jsonPath))
      \<and> (\<forall>obj key val file jsonPath. pres R (call_handleRef c obj key val file jsonPath))
      \<and> (\<forall>obj key val file jsonPath. pres R (call_handleInclude c obj key val file jsonPath)))"



text \<open>The registry holds at most one component for a class and an absolute target.\<close>

definition registry_ok :: "manager \<Rightarrow> bool" where
  "registry_ok m = distinct (map (\<lambda>c. (ctype c, curl c)) (components m))"

text \<open>\<open>mgr_grows m m'\<close>: the manager \<open>m'\<close> is \<open>m\<close> later in the same pass. It has the
  same name resolver, and its components start with those of \<open>m\<close>, each with the class,
  target and name it had (the content may have been resolved since).\<close>

definition mgr_grows :: "manager \<Rightarrow> manager \<Rightarrow> bool" where
  "mgr_grows m m' =
     (nameResolver m' = nameResolver m
      \<and> length (components m) \<le> length (components m')
      \<and> map (\<lambda>c. (ctype c, curl c, cname c)) (take (length (components m)) (components m'))
          = map (\<lambda>c. (ctype c, curl c, cname c)) (components m))"

definition mgr_step :: "state \<Rightarrow> state \<Rightarrow> bool" where
  "mgr_step st st' =
     (mgr_grows (mgr st) (mgr st') \<and> (registry_ok (mgr st) \<longrightarrow> registry_ok (mgr st')))"

definition mgr_same :: "state \<Rightarrow> state \<Rightarrow> bool" where
  "mgr_same st st' = (mgr st' = mgr st)"

text \<open>The name of the component registered for a class and a target, if there is one.\<close>

definition lookup_name :: "manager \<Rightarrow> string \<Rightarrow> string \<Rightarrow> string option" where
  "lookup_name m cls tgt =
     (case find_component cls tgt 0 (components m) of
        None \<Rightarrow> None
      | Some ic \<Rightarrow> Some (cname (snd ic)))"

text \<open>The class, the absolute target and the next file of a reference directive that
  \<^verbatim>\<open>handleRef\<close> takes to the registry: \<open>None\<close> when the directive is not one (a target
  that does not parse, a directive handled as an include, a local reference that returns
  early).\<close>

definition ref_directive ::
  "env \<Rightarrow> jv \<Rightarrow> string \<Rightarrow> string \<Rightarrow> manager \<Rightarrow> (string \<times> string \<times> string) option" where
  "ref_directive env val file jsonPath m =
     (case (parseUrl (util env) val, parseUrl (util env) (JStr file)) of
        (Inr pRef, Inr pFile) \<Rightarrow>
          if shouldInclude (util env) (getRefType (util env) jsonPath) then None
          else (case refTargetOf env pRef pFile val m of
                  Inr (Some (target, nextFile)) \<Rightarrow>
                    Some (getRefType (util env) jsonPath, target, nextFile)
                | _ \<Rightarrow> None)
      | _ \<Rightarrow> None)"

subsection \<open>A wildcard include, as the specification describes it\<close>






subsection \<open>Two runs\<close>

text \<open>The document a URL serves on the network of \<open>env\<close>: what \<^verbatim>\<open>download\<close> parses
  of the body of a successful response (lines 67--77), if there is one.\<close>

definition body_doc :: "env \<Rightarrow> string \<Rightarrow> string \<Rightarrow> exn + jv" where
  "body_doc env url body =
     (if ends_with url ''.yml'' \<or> ends_with url ''.yaml'' then yaml_load (node env) body
      else if ends_with url ''.json'' then json_parse (node env) body
      else yaml_load (node env) body)"

definition served :: "env \<Rightarrow> string \<Rightarrow> jv option" where
  "served env url =
     (case fetch (node env) url of
        Rejected \<Rightarrow> None
      | Response ok status body \<Rightarrow>
          (case body of
             None \<Rightarrow> None
           | Some b \<Rightarrow>
               (case body_doc env url b of
                  Inl e \<Rightarrow> None
                | Inr d \<Rightarrow> if ok then Some d else None)))"

text \<open>The document \<^verbatim>\<open>download\<close> has for a URL, with a given cache: the cached one
  (line 50: an entry that is truthy) or else the one the network serves.\<close>

definition answer :: "env \<Rightarrow> (string \<times> jv) list \<Rightarrow> string \<Rightarrow> jv option" where
  "answer env c url =
     (if truthy (cache_lookup c url) then Some (cache_lookup c url) else served env url)"

text \<open>Two caches have the same answers. The cache a run leaves has the answers of the
  cache it started with, on the same network; two new processes have empty caches.\<close>

definition same_answers :: "env \<Rightarrow> (string \<times> jv) list \<Rightarrow> (string \<times> jv) list \<Rightarrow> bool" where
  "same_answers env c c' = (\<forall>url. answer env c url = answer env c' url)"

text \<open>Two states of the merger that differ in their logs and in their caches only, the
  caches having the same answers.\<close>

definition agree :: "env \<Rightarrow> state \<Rightarrow> state \<Rightarrow> bool" where
  "agree env s t =
     (config s = config t \<and> baseDir s = baseDir t \<and> mgr s = mgr t
      \<and> same_answers env (cache s) (cache t))"

text \<open>What a run keeps: the configuration given to the constructor, and the answers of
  the cache.\<close>

definition run_kept :: "env \<Rightarrow> state \<Rightarrow> state \<Rightarrow> bool" where
  "run_kept env st st' = (config st' = config st \<and> same_answers env (cache st) (cache st'))"

definition same_outcome ::
  "(state \<Rightarrow> state \<Rightarrow> bool) \<Rightarrow> ('a \<times> state) outcome \<Rightarrow> ('a \<times> state) outcome \<Rightarrow> bool" where
  "same_outcome R x y =
     (case x of
        Timeout \<Rightarrow> y = Timeout
      | Throw e \<Rightarrow> y = Throw e
      | Return r \<Rightarrow> (case y of Return r' \<Rightarrow> fst r = fst r' \<and> R (snd r) (snd r') | _ \<Rightarrow> False))"

definition stable :: "env \<Rightarrow> 'a prog \<Rightarrow> bool" where
  "stable env m = (\<forall>s t. agree env s t \<longrightarrow> same_outcome (agree env) (m s) (m t))"

definition methods_stable :: "env \<Rightarrow> methods \<Rightarrow> bool" where
  "methods_stable env c =
     ((\<forall>obj file jsonPath. stable env (call_mergeRefs c obj file jsonPath))
      \<and> (\<forall>obj key val file jsonPath. stable env (call_handleRef c obj key val file jsonPath))
      \<and> (\<forall>obj key val file jsonPath. stable env (call_handleInclude c obj key val file jsonPath)))"

section \<open>Properties\<close>

lemma alist_get_None: "alist_get kvs k = None \<longleftrightarrow> k \<notin> fst ` set kvs"
  by (induction kvs) (force split: if_splits)+

lemma alist_get_insert_same:
  "alist_get kvs k = None \<Longrightarrow> alist_get (alist_insert kvs k v) k = Some v"
proof (induction kvs)
  case Nil
  then show ?case by simp
next
  case (Cons e kvs)
  obtain a b where e: "e = (a, b)" by (cases e)
  from Cons.prems e have ak: "a \<noteq> k" and n: "alist_get kvs k = None"
    by (simp_all split: if_splits)
  show ?case using e ak Cons.IH [OF n]
    by (cases "index_of_key k"; cases "index_of_key a") simp_all
qed

lemma alist_get_insert_other:
  "k' \<noteq> k \<Longrightarrow> alist_get (alist_insert kvs k v) k' = alist_get kvs k'"
proof (induction kvs)
  case Nil
  then show ?case by simp
next
  case (Cons e kvs)
  obtain a b where e: "e = (a, b)" by (cases e)
  show ?case using e Cons
    by (cases "index_of_key k"; cases "index_of_key a") auto
qed

lemma alist_get_replace_same:
  "alist_get kvs k \<noteq> None \<Longrightarrow> alist_get (alist_replace kvs k v) k = Some v"
  by (induction kvs) (auto split: if_splits)

lemma alist_get_replace_other:
  "k' \<noteq> k \<Longrightarrow> alist_get (alist_replace kvs k v) k' = alist_get kvs k'"
  by (induction kvs) auto

lemma alist_get_obj_set:
  "alist_get (obj_set kvs k v) k' = (if k' = k then Some v else alist_get kvs k')"
  by (simp add: obj_set_def alist_get_insert_same alist_get_insert_other
      alist_get_replace_same alist_get_replace_other)

lemma alist_get_del:
  "alist_get (alist_del kvs k) k' = (if k' = k then None else alist_get kvs k')"
  by (induction kvs) (auto simp: alist_del_def)

lemma map_fst_alist_replace: "map fst (alist_replace kvs k v) = map fst kvs"
  by (induction kvs) auto

lemma length_alist_insert: "length (alist_insert kvs k v) = Suc (length kvs)"
  by (induction kvs) (auto split: option.splits)

lemma length_obj_set:
  "length (obj_set kvs k v) = (if alist_get kvs k = None then Suc (length kvs) else length kvs)"
  using map_fst_alist_replace [of kvs k v, THEN arg_cong, of length]
  by (simp add: obj_set_def length_alist_insert)

lemma get_set_prop_JObj:
  "get_prop (set_prop (JObj kvs) k v) k' = (if k' = k then v else get_prop (JObj kvs) k')"
  by (simp add: alist_get_obj_set)

lemma has_set_prop_JObj:
  "has_prop (set_prop (JObj kvs) k v) k' = (k' = k \<or> has_prop (JObj kvs) k')"
  by (simp add: alist_get_obj_set)

lemma get_del_prop_JObj:
  "get_prop (del_prop (JObj kvs) k) k' = (if k' = k then JUndef else get_prop (JObj kvs) k')"
  by (simp add: alist_get_del)

lemma has_del_prop_JObj:
  "has_prop (del_prop (JObj kvs) k) k' = (k' \<noteq> k \<and> has_prop (JObj kvs) k')"
  by (simp add: alist_get_del)

lemma one_key_is_the_key:
  assumes "length (keys (set_prop (JObj kvs) k v)) = 1"
  shows "keys (set_prop (JObj kvs) k v) = [k]"
proof -
  from assms obtain x where x: "keys (set_prop (JObj kvs) k v) = [x]"
    by (cases "keys (set_prop (JObj kvs) k v)") auto
  have "k \<in> fst ` set (obj_set kvs k v)"
    using alist_get_None [of "obj_set kvs k v" k] alist_get_obj_set [of kvs k v k] by simp
  then have "k \<in> set (keys (set_prop (JObj kvs) k v))" by (simp add: keys_def)
  with x show ?thesis by simp
qed

lemma one_key_iff:
  "length (keys (set_prop (JObj kvs) k v)) = 1 \<longleftrightarrow> (kvs = [] \<or> (\<exists>w. kvs = [(k, w)]))"
proof (cases "alist_get kvs k")
  case None
  then have "length (keys (set_prop (JObj kvs) k v)) = Suc (length kvs)"
    by (simp add: keys_def length_obj_set)
  moreover have "\<not> (\<exists>w. kvs = [(k, w)])" using None by auto
  ultimately show ?thesis by simp
next
  case (Some a)
  then have "length (keys (set_prop (JObj kvs) k v)) = 1 \<longleftrightarrow> length kvs = 1"
    by (simp add: keys_def length_obj_set)
  also have "\<dots> \<longleftrightarrow> (\<exists>w. kvs = [(k, w)])"
  proof (cases kvs)
    case Nil
    with Some show ?thesis by simp
  next
    case (Cons e rest)
    obtain a' b' where "e = (a', b')" by (cases e)
    with Cons Some show ?thesis by (cases rest) (auto split: if_splits)
  qed
  finally show ?thesis using Some by (cases kvs) simp_all
qed

lemma mergeValue_JObj:
  "mergeValue (JObj d) k v =
     (if v = JUndef \<and> has_prop (JObj d) k then JObj d
      else JObj (obj_set d k (mergedValue (get_prop (JObj d) k) v)))"
proof (cases v)
  case JUndef
  then show ?thesis by (simp split: option.splits)
qed (simp_all only: mergeValue.simps mergedValue.simps set_prop.simps jv.simps if_False simp_thms)

lemma mergeValue_is_JObj: "\<exists>d'. mergeValue (JObj d) k v = JObj d'"
proof (cases "v = JUndef \<and> has_prop (JObj d) k")
  case True
  then have "mergeValue (JObj d) k v = JObj d" by (simp add: mergeValue_JObj)
  then show ?thesis by blast
next
  case False
  then have "mergeValue (JObj d) k v = JObj (obj_set d k (mergedValue (get_prop (JObj d) k) v))"
    by (simp only: mergeValue_JObj if_False)
  then show ?thesis by blast
qed

lemma get_mergeValue:
  "get_prop (mergeValue (JObj d) k v) k' =
     (if k' = k then mergedValue (get_prop (JObj d) k) v else get_prop (JObj d) k')"
proof (cases "v = JUndef \<and> has_prop (JObj d) k")
  case True
  then show ?thesis by (simp only: mergeValue_JObj mergedValue.simps if_True) simp
next
  case False
  then have "mergeValue (JObj d) k v = JObj (obj_set d k (mergedValue (get_prop (JObj d) k) v))"
    by (simp only: mergeValue_JObj if_False)
  then show ?thesis by (simp only: get_prop.simps alist_get_obj_set) simp
qed

lemma get_baseMerge_props:
  "distinct (map fst kvs) \<Longrightarrow>
   get_prop (baseMerge_props (JObj d) kvs) k =
     (case alist_get kvs k of
        None \<Rightarrow> get_prop (JObj d) k
      | Some v \<Rightarrow> mergedValue (get_prop (JObj d) k) v)"
proof (induction kvs arbitrary: d)
  case Nil
  then show ?case by simp
next
  case (Cons e kvs)
  obtain k' v' where e: "e = (k', v')" by (cases e)
  obtain d' where d': "mergeValue (JObj d) k' v' = JObj d'"
    using mergeValue_is_JObj by blast
  have dist: "distinct (map fst kvs)" and notin: "k' \<notin> fst ` set kvs"
    using Cons.prems e by auto
  have *: "get_prop (baseMerge_props (JObj d') kvs) k =
     (case alist_get kvs k of None \<Rightarrow> get_prop (JObj d') k
      | Some v \<Rightarrow> mergedValue (get_prop (JObj d') k) v)"
    using Cons.IH [OF dist] .
  have g: "get_prop (JObj d') k =
      (if k = k' then mergedValue (get_prop (JObj d) k') v' else get_prop (JObj d) k)"
    using get_mergeValue [of d k' v' k] d' by simp
  have step: "baseMerge_props (JObj d) (e # kvs) = baseMerge_props (JObj d') kvs"
    using e d' by simp
  show ?case
  proof (cases "k = k'")
    case True
    then have "alist_get kvs k = None" using notin alist_get_None [of kvs k] by simp
    with True * g e show ?thesis unfolding step by simp
  next
    case False
    with * g e show ?thesis unfolding step by (simp split: option.splits)
  qed
qed

lemma baseMerge_props_is_JObj: "\<exists>d'. baseMerge_props (JObj d) kvs = JObj d'"
proof (induction kvs arbitrary: d)
  case Nil
  then show ?case by simp
next
  case (Cons e kvs)
  obtain k' v' where e: "e = (k', v')" by (cases e)
  obtain d' where d': "mergeValue (JObj d) k' v' = JObj d'"
    using mergeValue_is_JObj by blast
  show ?case using Cons.IH [of d'] e d' by simp
qed

subsection \<open>The equations of the methods\<close>

lemma mergeRefs_0: "mergeRefs 0 env obj file jsonPath st = Timeout"
  by (simp add: mergeRefs_def)

lemma handleRef_0: "handleRef 0 env obj key val file jsonPath st = Timeout"
  by (simp add: handleRef_def)

lemma handleInclude_0: "handleInclude 0 env obj key val file jsonPath st = Timeout"
  by (simp add: handleInclude_def)

lemma mergeRefs_Suc:
  "mergeRefs (Suc n) env obj file jsonPath =
     (if \<not> isObject obj then ret obj
      else mergeRefs_for (methods_at n env) env (entries obj)
             (if isArray obj then JArr False [] [] else JObj []) file jsonPath)"
  by (simp add: mergeRefs_def mergeRefs_body_def)

lemma handleRef_Suc:
  "handleRef (Suc n) env obj key val file jsonPath =
     handleRef_body (methods_at n env) env obj key val file jsonPath"
  by (simp add: handleRef_def)

lemma handleInclude_Suc:
  "handleInclude (Suc n) env obj key val file jsonPath =
     handleInclude_body (methods_at n env) env obj key val file jsonPath"
  by (simp add: handleInclude_def)

lemma call_methods_at:
  "call_mergeRefs (methods_at n env) = mergeRefs n env"
  "call_handleRef (methods_at n env) = handleRef n env"
  "call_handleInclude (methods_at n env) = handleInclude n env"
  by (simp_all add: mergeRefs_def handleRef_def handleInclude_def)

declare methods_at.simps [simp del]

subsection \<open>Sequencing\<close>

lemma seq_weak_cong: "m = m' \<Longrightarrow> seq m k = seq m' k"
  by simp

lemma seq_Return: "m st = Return (v, st') \<Longrightarrow> seq m k st = k v st'"
  by (simp add: seq_def)

lemma seq_Throw: "m st = Throw e \<Longrightarrow> seq m k st = Throw e"
  by (simp add: seq_def)

lemma seq_Timeout: "m st = Timeout \<Longrightarrow> seq m k st = Timeout"
  by (simp add: seq_def)

lemma seq_ReturnD:
  "seq m k st = Return r \<Longrightarrow> \<exists>v st'. m st = Return (v, st') \<and> k v st' = Return r"
  by (auto simp: seq_def split: outcome.splits)

subsection \<open>Running the concrete environment\<close>

lemma demo_env_fields:
  "util (demo_env f n p g) = demo_util"
  "cwd (node (demo_env f n p g)) = ''/root''"
  "path_resolve (node (demo_env f n p g)) d q =
     (if take 1 q = ''/'' then q else d @ ''/'' @ strip_dot_slash q)"
  "path_dirname (node (demo_env f n p g)) = demo_dirname"
  "path_relative (node (demo_env f n p g)) = demo_relative"
  "path_basename (node (demo_env f n p g)) = demo_basename"
  "path_extname (node (demo_env f n p g)) = demo_extname"
  "posix_join (node (demo_env f n p g)) d v = d @ ''/'' @ strip_dot_slash v"
  "posix_dirname (node (demo_env f n p g)) = demo_dirname"
  "url_resolve (node (demo_env f n p g)) b v = b @ strip_dot_slash v"
  "glob_sync (node (demo_env f n p g)) pat =
     (case alist_get g pat of None \<Rightarrow> [] | Some fs \<Rightarrow> fs)"
  "readFileSync (node (demo_env f n p g)) = alist_get f"
  "yaml_load (node (demo_env f n p g)) t =
     (case alist_get p t of None \<Rightarrow> Inl (ParseError t) | Some d \<Rightarrow> Inr d)"
  "json_parse (node (demo_env f n p g)) t =
     (case alist_get p t of None \<Rightarrow> Inl (ParseError t) | Some d \<Rightarrow> Inr d)"
  "fetch (node (demo_env f n p g)) u = (case alist_get n u of None \<Rightarrow> Rejected | Some r \<Rightarrow> r)"
  by (simp_all add: demo_env_def demo_node_def)

lemma demo_util_fields:
  "parseUrl demo_util = demo_parseUrl"
  "sliceObject demo_util = demo_sliceObject"
  "mergeOrOverwrite demo_util = demo_mergeOrOverwrite"
  "filterObject demo_util = demo_filterObject"
  "appendObjectKeys demo_util = demo_appendObjectKeys"
  "prependObjectKeys demo_util = demo_prependObjectKeys"
  "getRefType demo_util jp = ''schemas''"
  "shouldInclude demo_util t = False"
  "componentName demo_util nr t url = last_segment url"
  "localRef demo_util t nm = ''#/components/'' @ t @ ''/'' @ nm"
  by (simp_all add: demo_util_def)

lemmas body_defs = mergeRefs_body_def handleRef_body_def handleInclude_body_def includeContent_def
  resolveInclude_def
  mergeRefs_for.simps includeFiles_for.simps finishInclude_def processInclude_def
  refTarget_def refTargetOf_def resolveTarget_def resolveTargetOf_def debug_msg_def
  seq_def ret_def throw_def lift_def log_msg_def reading_def set_baseDir_def
  readYAML_def download_def merger_download_def parse_body_def cache_put_def cache_lookup_def cloneDeep_def
  getOrCreate_def register_def load_target_def set_content_def mgr_exists_def mgr_get_def
  getComponentsSection_def new_manager_def merge_def member_def
  isRef_def isInclude_def match_include_def match_group_def getIncludeClass_def is_word_char_def
  ends_with_def keys_def concat_arr_def IncludedArray_from_def lodash_merge_def
  obj_set_def alist_del_def index_of_key_def is_digit_def dec_val_def digit_val_def
  digit_char_def show_nat_def Let_def

lemmas engine_defs = mergeRefs_def handleRef_def handleInclude_def methods_at.simps body_defs

lemmas demo_defs = demo_env_fields demo_util_fields demo_parseUrl_def demo_sliceObject_def
  demo_mergeOrOverwrite_def demo_filterObject_def demo_appendObjectKeys_def
  demo_prependObjectKeys_def map_keys_def last_segment_def demo_dirname_def
  strip_dot_slash_def demo_extname_def demo_basename_def demo_relative_def init_state_def

section \<open>A failed fetch\<close>

text \<open>What \<^verbatim>\<open>download\<close> catches: a rejected \<^verbatim>\<open>fetch\<close> and a response that is not
  \<^verbatim>\<open>ok\<close>. It returns an empty mapping and logs an error.\<close>

lemma download_miss_rejected:
  assumes "\<not> truthy (cache_lookup (cache st) url)" and "fetch (node env) url = Rejected"
  shows "download env url st =
     Return (JObj [], st\<lparr>logs := logs st @ [(Warn, ''fetching: '' @ url),
                                             (Err, ''Failed to fetch: '' @ url)]\<rparr>)"
  using assms by (simp add: download_def reading_def seq_def log_msg_def ret_def)

lemma download_miss_not_ok:
  assumes "\<not> truthy (cache_lookup (cache st) url)"
    and "fetch (node env) url = Response False status body"
  shows "download env url st =
     Return (JObj [], st\<lparr>logs := logs st @ [(Warn, ''fetching: '' @ url),
                                             (Err, show_nat status @ '' returned: '' @ url)]\<rparr>)"
  using assms by (simp add: download_def reading_def seq_def log_msg_def ret_def)

text \<open>
  C6 says that a failed fetch is never fatal to the merge. The code means it, with the
  \<^verbatim>\<open>try\<close> of \<^verbatim>\<open>download\<close> and the two lemmas above, and misses two cases. An include
  directive with a URL never reaches \<^verbatim>\<open>download\<close>: the merger calls a name that is
  not bound, so \<^verbatim>\<open>handleInclude\<close> throws a \<^verbatim>\<open>TypeError\<close>, whatever the network would
  answer, and nothing between there and \<^verbatim>\<open>merge\<close> catches it. And in \<^verbatim>\<open>download\<close>
  itself \<^verbatim>\<open>res.text()\<close> is outside the \<^verbatim>\<open>try\<close>: when the response is \<^verbatim>\<open>ok\<close> and
  the transport fails while the body is read, \<^verbatim>\<open>download\<close> throws.
\<close>

theorem failed_fetch_is_fatal:
  "(parseUrl (util env) val = Inr pRef \<and> isHttp pRef
      \<and> parseUrl (util env) (JStr file) = Inr pFile
    \<longrightarrow> handleInclude (Suc n) env obj key val file jsonPath st
          = Throw (TypeError ''download is not a function''))
   \<and> (\<not> truthy (cache_lookup (cache st) url)
      \<and> fetch (node env) url = Response True status None
    \<longrightarrow> download env url st = Throw (BodyError url))"
  by (simp add: handleInclude_Suc handleInclude_body_def resolveInclude_def includeContent_def
      merger_download_def debug_msg_def download_def reading_def seq_def log_msg_def
      lift_def ret_def throw_def Let_def)

theorem failed_fetch_is_fatal_witness:
  "fetch (node env_off) ''http://h/x.yaml'' = Rejected
   \<and> handleInclude (Suc 0) env_off (JObj []) ''$include'' (JStr ''http://h/x.yaml'')
        ''/root/doc.yaml'' ''$'' (init_state JNull)
     = Throw (TypeError ''download is not a function'')
   \<and> merge (Suc (Suc 0)) env_off (JObj [(''$include'', JStr ''http://h/x.yaml'')])
        ''doc.yaml'' (init_state JNull)
     = Throw (TypeError ''download is not a function'')
   \<and> download env_cut ''http://h/x.yaml'' (init_state JNull)
     = Throw (BodyError ''http://h/x.yaml'')"
proof -
  have rej: "fetch (node env_off) ''http://h/x.yaml'' = Rejected"
    by (simp add: env_off_def demo_env_fields)
  have "parseUrl (util env_off) (JStr ''http://h/x.yaml'')
          = Inr \<lparr>isHttp = True, isLocal = False, href = ''http://h/x.yaml'',
                 hrefWoHash = ''http://h/x.yaml'', hash = [], path = ''http://h/x.yaml''\<rparr>
        \<and> parseUrl (util env_off) (JStr ''/root/doc.yaml'')
          = Inr \<lparr>isHttp = False, isLocal = False, href = ''/root/doc.yaml'',
                 hrefWoHash = ''/root/doc.yaml'', hash = [], path = ''/root/doc.yaml''\<rparr>"
    by (simp add: env_off_def demo_defs)
  with failed_fetch_is_fatal [of env_off "JStr ''http://h/x.yaml''"
      "\<lparr>isHttp = True, isLocal = False, href = ''http://h/x.yaml'',
        hrefWoHash = ''http://h/x.yaml'', hash = [], path = ''http://h/x.yaml''\<rparr>"
      "''/root/doc.yaml''"
      "\<lparr>isHttp = False, isLocal = False, href = ''/root/doc.yaml'',
        hrefWoHash = ''/root/doc.yaml'', hash = [], path = ''/root/doc.yaml''\<rparr>"
      0 "JObj []" "''$include''" "''$''" "init_state JNull"]
  have inc: "handleInclude (Suc 0) env_off (JObj []) ''$include'' (JStr ''http://h/x.yaml'')
        ''/root/doc.yaml'' ''$'' (init_state JNull)
     = Throw (TypeError ''download is not a function'')"
    by simp
  have mrg: "merge (Suc (Suc 0)) env_off (JObj [(''$include'', JStr ''http://h/x.yaml'')])
        ''doc.yaml'' (init_state JNull)
     = Throw (TypeError ''download is not a function'')"
    by (simp add: engine_defs demo_defs env_off_def cong: seq_weak_cong)
  have "\<not> truthy (cache_lookup (cache (init_state JNull)) ''http://h/x.yaml'')
        \<and> fetch (node env_cut) ''http://h/x.yaml'' = Response True 200 None"
    by (simp add: cache_lookup_def init_state_def env_cut_def demo_env_fields)
  with failed_fetch_is_fatal [where env = env_cut and st = "init_state JNull"
      and url = "''http://h/x.yaml''" and status = 200]
  have cut: "download env_cut ''http://h/x.yaml'' (init_state JNull)
     = Throw (BodyError ''http://h/x.yaml'')"
    by simp
  from rej inc mrg cut show ?thesis by (intro conjI)
qed

section \<open>The include post-processor\<close>

lemma processInclude_no_class:
  "getIncludeClass key = None \<Longrightarrow> processInclude env key obj cfg st = Return (obj, st)"
  by (simp add: processInclude_def ret_def)

lemma processInclude_configured:
  assumes "getIncludeClass key = Some clazz" and "clazz \<noteq> []"
    and "member cfg ''include'' = Inr inc" and "member inc clazz = Inr cc" and "truthy cc"
  shows "processInclude env key obj cfg st =
     Return (prependObjectKeys (util env)
               (appendObjectKeys (util env)
                  (filterObject (util env) obj (get_prop cc ''filter''))
                  (get_prop cc ''prefix''))
               (get_prop cc ''suffix''), st)"
  using assms by (simp add: processInclude_def seq_def lift_def ret_def)

lemma processInclude_unconfigured:
  assumes "getIncludeClass key = Some clazz" and "clazz \<noteq> []"
    and "member cfg ''include'' = Inr inc" and "member inc clazz = Inr cc" and "\<not> truthy cc"
  shows "processInclude env key obj cfg st =
     Return (obj, st\<lparr>logs := logs st @ [(Warn, ''$include classname '' @ [CHR 0x27] @ clazz
                              @ '' specified, but no configuration found.'')]\<rparr>)"
  using assms by (simp add: processInclude_def seq_def lift_def ret_def log_msg_def)

lemma processInclude_no_include_section:
  assumes "getIncludeClass key = Some clazz" and "clazz \<noteq> []"
    and "cfg = JObj kvs" and "alist_get kvs ''include'' = None"
  shows "processInclude env key obj cfg st = Throw (TypeError (''Cannot read properties: '' @ clazz))"
  using assms by (simp add: processInclude_def seq_def lift_def ret_def member_def throw_def)

lemma getIncludeClass_foo: "getIncludeClass ''$include.foo'' = Some ''foo''"
  by (simp add: getIncludeClass_def match_include_def match_group_def is_word_char_def)

section \<open>Include directives\<close>

lemma include_key_not_index: "isInclude key \<Longrightarrow> index_of_key key = None"
proof -
  assume "isInclude key"
  then have "take 8 key = ''$include''"
    by (auto simp: isInclude_def match_include_def split: if_splits)
  then obtain rest where "key = CHR ''$'' # rest"
    by (cases key) auto
  then show ?thesis by (simp add: index_of_key_def is_digit_def)
qed

lemma handleInclude_resolved:
  assumes "resolveInclude (methods_at n env) env key val file jsonPath
             (st\<lparr>logs := logs st @ [(Debug, ''include: '' @ jsonPath @ '' file=''
                 @ path_relative (node env) (baseDir st) file)]\<rparr>) = Return (Some merged, st')"
  shows "handleInclude (Suc n) env obj key val file jsonPath st =
     finishInclude env (set_prop obj key (mergeOrOverwrite (util env) (get_prop obj key) val))
       key val jsonPath merged st'"
  using assms
  by (simp add: handleInclude_Suc handleInclude_body_def debug_msg_def reading_def log_msg_def seq_def
      Let_def)

lemma finishInclude_array:
  assumes "isArray merged"
  shows "finishInclude env obj key val jsonPath merged st =
     (if isArray obj then Return ((concat_arr obj merged, obj), st)
      else if length (keys obj) = 1 then Return ((IncludedArray_from merged, obj), st)
      else Throw (IncludeArrayError val jsonPath))"
  using assms by (simp add: finishInclude_def ret_def throw_def)

lemma elems_set_prop_named:
  "index_of_key k = None \<Longrightarrow> elems (set_prop a k v) = elems a"
  by (cases a) simp_all

lemma isArray_set_prop: "isArray (set_prop a k v) = isArray a"
  by (cases a) (simp_all split: option.splits)

lemma isIncludedArray_set_prop: "isIncludedArray (set_prop a k v) = isIncludedArray a"
  by (cases a) (simp_all split: option.splits)

lemma mergeRefs_for_include_Throw:
  assumes "\<not> isRef key jsonPath" and "isInclude key"
    and "call_handleInclude callee r key val file jsonPath st = Throw e"
  shows "mergeRefs_for callee env ((key, val) # es) r file jsonPath st = Throw e"
  using assms by (simp add: seq_def)

text \<open>
  C2. When the resolved content of an include directive is a sequence: if the destination
  is a sequence, \<^verbatim>\<open>handleInclude\<close> returns the concatenation of the destination's
  elements and the sequence's; if the destination is a mapping that, with the directive
  written into it, has the directive as its one and only key, \<^verbatim>\<open>handleInclude\<close>
  returns the sequence (as an \<^verbatim>\<open>IncludedArray\<close>); for every other destination it
  throws, and the loop of \<^verbatim>\<open>mergeRefs\<close> that called it throws the same error without
  visiting the entries that are left (\<open>es\<close>). Every caller up to \<^verbatim>\<open>merge\<close> is a
  sequence of awaits with no \<^verbatim>\<open>try\<close>, so the error is the outcome of the merge: the
  witness below runs one.
\<close>

theorem include_array_rule:
  assumes dest: "obj = JObj kvs \<or> isArray obj"
    and key: "isInclude key"
    and res: "resolveInclude (methods_at n env) env key val file jsonPath
             (st\<lparr>logs := logs st @ [(Debug, ''include: '' @ jsonPath @ '' file=''
                 @ path_relative (node env) (baseDir st) file)]\<rparr>) = Return (Some merged, st')"
    and arr: "isArray merged"
    and obj1: "obj1 = set_prop obj key (mergeOrOverwrite (util env) (get_prop obj key) val)"
  shows "handleInclude (Suc n) env obj key val file jsonPath st =
     (if isArray obj
      then Return ((JArr (isIncludedArray obj) (elems obj @ elems merged) [], obj1), st')
      else if keys obj1 = [key]
      then Return ((JArr True (elems merged) [], obj1), st')
      else Throw (IncludeArrayError val jsonPath))
    \<and> (\<not> isArray obj \<and> keys obj1 \<noteq> [key] \<and> \<not> isRef key jsonPath \<longrightarrow>
         mergeRefs_for (methods_at (Suc n) env) env ((key, val) # es) obj file jsonPath st
           = Throw (IncludeArrayError val jsonPath))"
proof -
  have h: "handleInclude (Suc n) env obj key val file jsonPath st =
      finishInclude env obj1 key val jsonPath merged st'"
    unfolding obj1 by (rule handleInclude_resolved [OF res])
  have idx: "index_of_key key = None" by (rule include_key_not_index [OF key])
  have one: "\<not> isArray obj \<Longrightarrow> length (keys obj1) = 1 \<longleftrightarrow> keys obj1 = [key]"
  proof -
    assume "\<not> isArray obj"
    with dest have o: "obj = JObj kvs" by auto
    show ?thesis
      unfolding obj1 o using one_key_is_the_key [of kvs key] by auto
  qed
  have first: "handleInclude (Suc n) env obj key val file jsonPath st =
     (if isArray obj
      then Return ((JArr (isIncludedArray obj) (elems obj @ elems merged) [], obj1), st')
      else if keys obj1 = [key]
      then Return ((JArr True (elems merged) [], obj1), st')
      else Throw (IncludeArrayError val jsonPath))"
  proof (cases "isArray obj")
    case True
    then show ?thesis
      unfolding h finishInclude_array [OF arr]
      by (simp add: obj1 isArray_set_prop concat_arr_def isIncludedArray_set_prop
          elems_set_prop_named [OF idx])
  next
    case False
    then have "\<not> isArray obj1" by (simp add: obj1 isArray_set_prop)
    with False one show ?thesis
      unfolding h finishInclude_array [OF arr] by (simp add: IncludedArray_from_def)
  qed
  moreover have "\<not> isArray obj \<and> keys obj1 \<noteq> [key] \<and> \<not> isRef key jsonPath \<longrightarrow>
         mergeRefs_for (methods_at (Suc n) env) env ((key, val) # es) obj file jsonPath st
           = Throw (IncludeArrayError val jsonPath)"
  proof (intro impI, elim conjE)
    assume a: "\<not> isArray obj" "keys obj1 \<noteq> [key]" "\<not> isRef key jsonPath"
    from first a have
      "call_handleInclude (methods_at (Suc n) env) obj key val file jsonPath st
         = Throw (IncludeArrayError val jsonPath)"
      by (simp only: call_methods_at if_False)
    then show "mergeRefs_for (methods_at (Suc n) env) env ((key, val) # es) obj file jsonPath st
           = Throw (IncludeArrayError val jsonPath)"
      by (rule mergeRefs_for_include_Throw [OF a(3) key])
  qed
  ultimately show ?thesis by blast
qed



lemma isInclude_plain: "isInclude ''$include''"
  by (simp add: isInclude_def match_include_def match_group_def)

lemma resolve_l:
  "resolveInclude (methods_at (Suc (Suc 0)) env_a) env_a ''$include'' (JStr ''./l.yaml'')
     ''/root/doc.yaml'' ''$''
     ((init_state JNull)\<lparr>logs := logs (init_state JNull) @ [(Debug, ''include: '' @ ''$'' @ '' file=''
          @ path_relative (node env_a) (baseDir (init_state JNull)) ''/root/doc.yaml'')]\<rparr>)
   = Return (Some (JArr False [JNum 1, JNum 2] []),
       (init_state JNull)\<lparr>logs := [(Debug, ''include: $ file=root/doc.yaml'')]\<rparr>)"
  by (simp add: engine_defs demo_defs env_a_def cong: seq_weak_cong)

theorem include_array_rule_witness:
  "isInclude ''$include''
   \<and> handleInclude (Suc (Suc (Suc 0))) env_a (JArr True [JNum 0] []) ''$include'' (JStr ''./l.yaml'')
       ''/root/doc.yaml'' ''$'' (init_state JNull)
     = Return ((JArr True [JNum 0, JNum 1, JNum 2] [],
                JArr True [JNum 0] [(''$include'', JStr ''./l.yaml'')]),
         (init_state JNull)\<lparr>logs := [(Debug, ''include: $ file=root/doc.yaml'')]\<rparr>)
   \<and> handleInclude (Suc (Suc (Suc 0))) env_a (JObj []) ''$include'' (JStr ''./l.yaml'')
       ''/root/doc.yaml'' ''$'' (init_state JNull)
     = Return ((JArr True [JNum 1, JNum 2] [], JObj [(''$include'', JStr ''./l.yaml'')]),
         (init_state JNull)\<lparr>logs := [(Debug, ''include: $ file=root/doc.yaml'')]\<rparr>)
   \<and> handleInclude (Suc (Suc (Suc 0))) env_a (JObj [(''a'', JNum 1)]) ''$include'' (JStr ''./l.yaml'')
       ''/root/doc.yaml'' ''$'' (init_state JNull)
     = Throw (IncludeArrayError (JStr ''./l.yaml'') ''$'')
   \<and> merge (Suc (Suc (Suc (Suc 0)))) env_a
       (JObj [(''a'', JNum 1), (''$include'', JStr ''./l.yaml'')]) ''doc.yaml'' (init_state JNull)
     = Throw (IncludeArrayError (JStr ''./l.yaml'') ''$'')"
proof -
  have m: "merge (Suc (Suc (Suc (Suc 0)))) env_a
       (JObj [(''a'', JNum 1), (''$include'', JStr ''./l.yaml'')]) ''doc.yaml'' (init_state JNull)
     = Throw (IncludeArrayError (JStr ''./l.yaml'') ''$'')"
    by (simp add: engine_defs demo_defs env_a_def cong: seq_weak_cong)
  note r = include_array_rule [OF _ isInclude_plain resolve_l _ refl, where es = "[]"]
  have a: "isArray (JArr False [JNum 1, JNum 2] [])" by simp
  have 1: "JArr True [JNum 0] [] = JObj [] \<or> isArray (JArr True [JNum 0] [])" by simp
  have 2: "JObj [] = JObj [] \<or> isArray (JObj [])" by simp
  have 3: "JObj [(''a'', JNum 1)] = JObj [(''a'', JNum 1)] \<or> isArray (JObj [(''a'', JNum 1)])"
    by simp
  show ?thesis
    using r [OF 1 a, THEN conjunct1] r [OF 2 a, THEN conjunct1] r [OF 3 a, THEN conjunct1]
      isInclude_plain m
    by (simp add: demo_defs env_a_def keys_def obj_set_def index_of_key_def is_digit_def)
qed

lemma finishInclude_mapping:
  assumes "\<not> isArray merged"
    and "processInclude env key merged (config st) st = Return (processed, st')"
  shows "finishInclude env obj key val jsonPath merged st =
     Return ((del_prop (lodash_merge obj processed) key,
              del_prop (lodash_merge obj processed) key), st')"
  using assms by (simp add: finishInclude_def reading_def seq_def ret_def Let_def)

text \<open>
  C4, as amended. When the resolved content of an include directive is not a sequence and
  its post-processed form is a mapping, \<^verbatim>\<open>handleInclude\<close> merges it into the
  destination mapping with lodash \<^verbatim>\<open>merge\<close>, the included content being the source:
  a key the include does not have keeps the destination's value; under a key both have,
  an included value that is not an object (and not \<^verbatim>\<open>undefined\<close>) replaces the
  existing value, and an included object or array is merged into the existing one
  recursively (\<open>mergedValue\<close>); the directive key is not in the result.
\<close>

theorem include_mapping_merge:
  assumes dest: "obj = JObj kvs"
    and res: "resolveInclude (methods_at n env) env key val file jsonPath
             (st\<lparr>logs := logs st @ [(Debug, ''include: '' @ jsonPath @ '' file=''
                 @ path_relative (node env) (baseDir st) file)]\<rparr>) = Return (Some merged, st1)"
    and notarr: "\<not> isArray merged"
    and proc: "processInclude env key merged (config st1) st1 = Return (JObj pkvs, st2)"
    and dist: "distinct (map fst pkvs)"
  shows "\<exists>r. handleInclude (Suc n) env obj key val file jsonPath st = Return ((r, r), st2)
     \<and> \<not> has_prop r key
     \<and> (\<forall>k. k \<noteq> key \<longrightarrow>
           get_prop r k =
             (case alist_get pkvs k of
                None \<Rightarrow> get_prop obj k
              | Some v \<Rightarrow> mergedValue (get_prop obj k) v))
     \<and> (\<forall>k v. k \<noteq> key \<and> alist_get pkvs k = Some v \<and> \<not> isObject v \<and> v \<noteq> JUndef \<longrightarrow>
           get_prop r k = v)"
proof -
  define x where "x = mergeOrOverwrite (util env) (get_prop obj key) val"
  define obj1 where "obj1 = JObj (obj_set kvs key x)"
  have o1: "set_prop obj key (mergeOrOverwrite (util env) (get_prop obj key) val) = obj1"
    by (simp add: obj1_def x_def dest)
  obtain d where d: "baseMerge_props obj1 pkvs = JObj d"
    using baseMerge_props_is_JObj [of "obj_set kvs key x" pkvs] by (auto simp: obj1_def)
  define r where "r = del_prop (JObj d) key"
  have lm: "lodash_merge obj1 (JObj pkvs) = JObj d"
    by (simp add: lodash_merge_def obj1_def d [unfolded obj1_def])
  have h: "handleInclude (Suc n) env obj key val file jsonPath st = Return ((r, r), st2)"
    unfolding handleInclude_resolved [OF res] o1 finishInclude_mapping [OF notarr proc] lm r_def
    by simp
  have nokey: "\<not> has_prop r key"
    unfolding r_def by (simp only: has_del_prop_JObj) simp
  have look: "get_prop r k =
             (case alist_get pkvs k of
                None \<Rightarrow> get_prop obj k
              | Some v \<Rightarrow> mergedValue (get_prop obj k) v)" if "k \<noteq> key" for k
  proof -
    have "get_prop r k = get_prop (JObj d) k"
      unfolding r_def using that by (simp only: get_del_prop_JObj if_False)
    also have "\<dots> = get_prop (baseMerge_props (JObj (obj_set kvs key x)) pkvs) k"
      using d by (simp add: obj1_def)
    also have "\<dots> = (case alist_get pkvs k of
                None \<Rightarrow> get_prop (JObj (obj_set kvs key x)) k
              | Some v \<Rightarrow> mergedValue (get_prop (JObj (obj_set kvs key x)) k) v)"
      by (rule get_baseMerge_props [OF dist])
    also have "get_prop (JObj (obj_set kvs key x)) k = get_prop obj k"
      using that by (simp add: dest alist_get_obj_set)
    finally show ?thesis .
  qed
  have wins: "get_prop r k = v"
    if "k \<noteq> key \<and> alist_get pkvs k = Some v \<and> \<not> isObject v \<and> v \<noteq> JUndef" for k v
    using look [of k] that by (cases v) simp_all
  show ?thesis
  proof (intro exI [of _ r] conjI allI impI)
    show "handleInclude (Suc n) env obj key val file jsonPath st = Return ((r, r), st2)"
      by (rule h)
    show "\<not> has_prop r key" by (rule nokey)
    show "get_prop r k = (case alist_get pkvs k of None \<Rightarrow> get_prop obj k
              | Some v \<Rightarrow> mergedValue (get_prop obj k) v)" if "k \<noteq> key" for k
      by (rule look [OF that])
    show "get_prop r k = v"
      if "k \<noteq> key \<and> alist_get pkvs k = Some v \<and> \<not> isObject v \<and> v \<noteq> JUndef" for k v
      by (rule wins [OF that])
  qed
qed

lemma resolve_f:
  "resolveInclude (methods_at (Suc (Suc 0)) env_a) env_a ''$include'' (JStr ''./f.yaml'')
     ''/root/doc.yaml'' ''$''
     ((init_state JNull)\<lparr>logs := logs (init_state JNull) @ [(Debug, ''include: '' @ ''$'' @ '' file=''
          @ path_relative (node env_a) (baseDir (init_state JNull)) ''/root/doc.yaml'')]\<rparr>)
   = Return (Some (JObj [(''a'', JNum 2)]),
       (init_state JNull)\<lparr>logs := [(Debug, ''include: $ file=root/doc.yaml'')]\<rparr>)"
  by (simp add: engine_defs demo_defs env_a_def cong: seq_weak_cong)

theorem include_mapping_merge_witness:
  "\<exists>r. handleInclude (Suc (Suc (Suc 0))) env_a (JObj [(''a'', JNum 1), (''b'', JNum 3)])
          ''$include'' (JStr ''./f.yaml'') ''/root/doc.yaml'' ''$'' (init_state JNull)
        = Return ((r, r), (init_state JNull)\<lparr>logs := [(Debug, ''include: $ file=root/doc.yaml'')]\<rparr>)
      \<and> \<not> has_prop r ''$include'' \<and> get_prop r ''a'' = JNum 2 \<and> get_prop r ''b'' = JNum 3"
proof -
  have proc: "processInclude env_a ''$include'' (JObj [(''a'', JNum 2)])
      (config ((init_state JNull)\<lparr>logs := [(Debug, ''include: $ file=root/doc.yaml'')]\<rparr>))
      ((init_state JNull)\<lparr>logs := [(Debug, ''include: $ file=root/doc.yaml'')]\<rparr>)
     = Return (JObj [(''a'', JNum 2)],
         (init_state JNull)\<lparr>logs := [(Debug, ''include: $ file=root/doc.yaml'')]\<rparr>)"
    by (rule processInclude_no_class)
       (simp add: getIncludeClass_def match_include_def match_group_def)
  have notarr: "\<not> isArray (JObj [(''a'', JNum 2)])" by simp
  have dist: "distinct (map fst [(''a'', JNum 2)])" by simp
  from include_mapping_merge
    [where kvs = "[(''a'', JNum 1), (''b'', JNum 3)]", OF refl resolve_f notarr proc dist]
  obtain r where R:
    "handleInclude (Suc (Suc (Suc 0))) env_a (JObj [(''a'', JNum 1), (''b'', JNum 3)])
          ''$include'' (JStr ''./f.yaml'') ''/root/doc.yaml'' ''$'' (init_state JNull)
        = Return ((r, r), (init_state JNull)\<lparr>logs := [(Debug, ''include: $ file=root/doc.yaml'')]\<rparr>)
     \<and> \<not> has_prop r ''$include''
     \<and> (\<forall>k. k \<noteq> ''$include'' \<longrightarrow>
           get_prop r k =
             (case alist_get [(''a'', JNum 2)] k of
                None \<Rightarrow> get_prop (JObj [(''a'', JNum 1), (''b'', JNum 3)]) k
              | Some v \<Rightarrow> mergedValue (get_prop (JObj [(''a'', JNum 1), (''b'', JNum 3)]) k) v))
     \<and> (\<forall>k v. k \<noteq> ''$include'' \<and> alist_get [(''a'', JNum 2)] k = Some v
            \<and> \<not> isObject v \<and> v \<noteq> JUndef \<longrightarrow> get_prop r k = v)" ..
  note h = R [THEN conjunct1]
  note nk = R [THEN conjunct2, THEN conjunct1]
  note look = R [THEN conjunct2, THEN conjunct2, THEN conjunct1]
  have "get_prop r ''a'' = JNum 2" "get_prop r ''b'' = JNum 3"
    using look [rule_format, of "''a''"] look [rule_format, of "''b''"] by simp_all
  with h nk show ?thesis by blast
qed

text \<open>
  The claim C4 as stated says the existing key wins. It does not: with \<^verbatim>\<open>a: 1\<close> in the
  destination and \<^verbatim>\<open>a: 2\<close> in the included file, \<^verbatim>\<open>handleInclude\<close> returns
  \<^verbatim>\<open>a: 2\<close>, and so does the merge of a document that has \<^verbatim>\<open>a: 1\<close> before the
  directive.
\<close>

theorem include_overwrites_sibling_counterexample:
  "handleInclude (Suc (Suc (Suc 0))) env_a (JObj [(''a'', JNum 1)])
       ''$include'' (JStr ''./f.yaml'') ''/root/doc.yaml'' ''$'' (init_state JNull)
     = Return ((JObj [(''a'', JNum 2)], JObj [(''a'', JNum 2)]),
         (init_state JNull)\<lparr>logs := [(Debug, ''include: $ file=root/doc.yaml'')]\<rparr>)
   \<and> map_outcome fst
        (merge (Suc (Suc (Suc (Suc 0)))) env_a
           (JObj [(''a'', JNum 1), (''$include'', JStr ''./f.yaml'')]) ''doc.yaml''
           (init_state JNull))
     = Return (JObj [(''a'', JNum 2), (''components'', JObj [])])"
  by (simp add: engine_defs demo_defs env_a_def cong: seq_weak_cong)

text \<open>
  C9. The post-processor warns and passes the content through when the \<^verbatim>\<open>include\<close>
  section of the configuration has no entry for the class
  (\<open>processInclude_unconfigured\<close>), and applies filter, prefix, suffix in that order
  when it has one (\<open>processInclude_configured\<close>). When the configuration has no
  \<^verbatim>\<open>include\<close> section at all, as the \<^verbatim>\<open>{}\<close> that \<^verbatim>\<open>index.js\<close> passes when no
  configuration file is given, \<^verbatim>\<open>config.include[clazz]\<close> throws a \<^verbatim>\<open>TypeError\<close>
  and the merge is aborted.
\<close>

theorem classed_include_without_config_throws:
  "merge (Suc (Suc (Suc (Suc 0)))) env_a (JObj [(''$include.foo'', JStr ''./f.yaml'')])
     ''doc.yaml'' (init_state (JObj []))
   = Throw (TypeError ''Cannot read properties: foo'')"
  by (simp add: engine_defs demo_defs env_a_def cong: seq_weak_cong)

section \<open>Wildcard includes\<close>










section \<open>What every call of the engine preserves\<close>

lemma presI: "(\<And>st v st'. m st = Return (v, st') \<Longrightarrow> R st st') \<Longrightarrow> pres R m"
  by (simp add: pres_def)

lemma presD: "pres R m \<Longrightarrow> m st = Return (v, st') \<Longrightarrow> R st st'"
  by (simp add: pres_def)

lemma pres_ret: "reflp R \<Longrightarrow> pres R (ret v)"
  by (auto simp: pres_def ret_def reflp_def)

lemma pres_throw: "pres R (throw e)"
  by (simp add: pres_def throw_def)

lemma pres_timeout: "pres R (\<lambda>st. Timeout)"
  by (simp add: pres_def)

lemma pres_lift: "reflp R \<Longrightarrow> pres R (lift r)"
  by (cases r) (simp_all add: lift_def pres_ret pres_throw)

lemma pres_seq:
  assumes "transp R" and "pres R m" and "\<And>v. pres R (k v)"
  shows "pres R (seq m k)"
proof (rule presI)
  fix st v st'
  assume "seq m k st = Return (v, st')"
  from seq_ReturnD [OF this] obtain w st1 where
    1: "m st = Return (w, st1)" and 2: "k w st1 = Return (v, st')" by blast
  from presD [OF assms(2) 1] presD [OF assms(3) 2] assms(1) show "R st st'"
    by (meson transpD)
qed

lemma pres_reading: "(\<And>s. pres R (f s)) \<Longrightarrow> pres R (reading f)"
  by (simp add: pres_def reading_def)

lemma pres_if: "(c \<Longrightarrow> pres R a) \<Longrightarrow> (\<not> c \<Longrightarrow> pres R b) \<Longrightarrow> pres R (if c then a else b)"
  by simp

lemma pres_option:
  "(t = None \<Longrightarrow> pres R a) \<Longrightarrow> (\<And>x. t = Some x \<Longrightarrow> pres R (f x)) \<Longrightarrow> pres R (case_option a f t)"
  by (cases t) simp_all

lemma pres_prod: "(\<And>a b. p = (a, b) \<Longrightarrow> pres R (f a b)) \<Longrightarrow> pres R (case_prod f p)"
  by (cases p) simp

lemma pres_Let: "(\<And>x. x = v \<Longrightarrow> pres R (f x)) \<Longrightarrow> pres R (Let v f)"
  by simp

lemma pres_response:
  "(r = Rejected \<Longrightarrow> pres R a) \<Longrightarrow> (\<And>ok status body. r = Response ok status body \<Longrightarrow> pres R (f ok status body))
   \<Longrightarrow> pres R (case_response a f r)"
  by (cases r) simp_all

lemmas pres_intros = pres_ret pres_throw pres_timeout pres_lift pres_seq pres_reading pres_if
  pres_option pres_prod pres_Let pres_response

lemma pres_readYAML: "reflp R \<Longrightarrow> pres R (readYAML env f)"
  by (simp add: readYAML_def pres_throw pres_lift split: option.splits)

lemma pres_resolveTarget: "reflp R \<Longrightarrow> transp R \<Longrightarrow> pres R (resolveTarget env pFile val)"
  unfolding resolveTarget_def by (intro pres_intros)

lemma pres_refTarget: "reflp R \<Longrightarrow> transp R \<Longrightarrow> pres R (refTarget env pRef pFile val)"
  unfolding refTarget_def by (intro pres_intros)

lemma pres_debug_msg: "(\<And>l m. pres R (log_msg l m)) \<Longrightarrow> pres R (debug_msg env w jp f)"
  unfolding debug_msg_def by (intro pres_intros) simp_all

lemma pres_processInclude:
  "reflp R \<Longrightarrow> transp R \<Longrightarrow> (\<And>l m. pres R (log_msg l m)) \<Longrightarrow> pres R (processInclude env key obj cfg)"
  unfolding processInclude_def by (intro pres_intros) simp_all

lemma pres_finishInclude:
  "reflp R \<Longrightarrow> transp R \<Longrightarrow> (\<And>l m. pres R (log_msg l m))
   \<Longrightarrow> pres R (finishInclude env obj key val jsonPath merged)"
  unfolding finishInclude_def by (intro pres_intros pres_processInclude) simp_all

lemma pres_mergeRefs_for:
  assumes R: "reflp R" "transp R" and c: "methods_pres R c"
  shows "pres R (mergeRefs_for c env es r file jsonPath)"
proof (induction es arbitrary: r)
  case Nil
  show ?case by (simp add: pres_ret R)
next
  case (Cons e es)
  from c have
    m: "\<And>obj file jsonPath. pres R (call_mergeRefs c obj file jsonPath)"
    and h: "\<And>obj key val file jsonPath. pres R (call_handleRef c obj key val file jsonPath)"
    and i: "\<And>obj key val file jsonPath. pres R (call_handleInclude c obj key val file jsonPath)"
    by (simp_all add: methods_pres_def)
  show ?case
    unfolding mergeRefs_for.simps
    by (intro pres_intros R m h i Cons.IH)
qed

lemma pres_mergeRefs_body:
  assumes R: "reflp R" "transp R" and c: "methods_pres R c"
  shows "pres R (mergeRefs_body c env obj file jsonPath)"
  unfolding mergeRefs_body_def by (intro pres_intros R pres_mergeRefs_for c)

lemma pres_handleRef_body:
  assumes R: "reflp R" "transp R" and c: "methods_pres R c"
    and l: "\<And>l m. pres R (log_msg l m)"
    and g: "\<And>t u. pres R (getOrCreate env t u)"
    and s: "\<And>i v. pres R (set_content i v)"
  shows "pres R (handleRef_body c env obj key val file jsonPath)"
proof -
  from c have
    m: "\<And>obj file jsonPath. pres R (call_mergeRefs c obj file jsonPath)"
    and i: "\<And>obj key val file jsonPath. pres R (call_handleInclude c obj key val file jsonPath)"
    by (simp_all add: methods_pres_def)
  show ?thesis
    unfolding handleRef_body_def
    by (intro pres_intros R m i g s pres_debug_msg l pres_refTarget)
qed

lemma pres_includeFiles_for:
  assumes R: "reflp R" "transp R" and c: "methods_pres R c"
  shows "pres R (includeFiles_for c env mfs acc key file jsonPath)"
proof (induction mfs arbitrary: acc)
  case Nil
  show ?case by (simp add: pres_ret R)
next
  case (Cons mf mfs)
  from c have
    i: "\<And>obj key val file jsonPath. pres R (call_handleInclude c obj key val file jsonPath)"
    by (simp_all add: methods_pres_def)
  show ?case
    unfolding includeFiles_for.simps
    by (intro pres_intros R i Cons.IH)
qed

lemma pres_merger_download: "pres R (merger_download u)"
  unfolding merger_download_def by (rule pres_throw)

lemma pres_includeContent:
  assumes R: "reflp R" "transp R" and c: "methods_pres R c"
  shows "pres R (includeContent c env pRef pFile key val file jsonPath)"
  unfolding includeContent_def
  by (intro pres_intros R pres_merger_download pres_readYAML pres_resolveTarget
      pres_includeFiles_for c)

lemma pres_resolveInclude:
  assumes R: "reflp R" "transp R" and c: "methods_pres R c"
  shows "pres R (resolveInclude c env key val file jsonPath)"
proof -
  from c have
    m: "\<And>obj file jsonPath. pres R (call_mergeRefs c obj file jsonPath)"
    by (simp_all add: methods_pres_def)
  show ?thesis
    unfolding resolveInclude_def
    by (intro pres_intros R m pres_includeContent c)
qed

lemma pres_handleInclude_body:
  assumes R: "reflp R" "transp R" and c: "methods_pres R c"
    and l: "\<And>l m. pres R (log_msg l m)"
  shows "pres R (handleInclude_body c env obj key val file jsonPath)"
  unfolding handleInclude_body_def
  by (intro pres_intros R pres_debug_msg l pres_resolveInclude c pres_finishInclude)

lemma methods_at_pres:
  assumes R: "reflp R" "transp R"
    and l: "\<And>l m. pres R (log_msg l m)"
    and g: "\<And>t u. pres R (getOrCreate env t u)"
    and s: "\<And>i v. pres R (set_content i v)"
  shows "methods_pres R (methods_at n env)"
proof (induction n)
  case 0
  show ?case by (simp add: methods_pres_def methods_at.simps pres_timeout)
next
  case (Suc n)
  show ?case
    unfolding methods_pres_def methods_at.simps
    using pres_mergeRefs_body [OF R Suc] pres_handleRef_body [OF R Suc l g s]
      pres_handleInclude_body [OF R Suc l]
    by simp
qed

section \<open>The fetch cache outlives a merge\<close>

lemma cache_lookup_obj_set:
  "cache_lookup (obj_set c u d) u' = (if u' = u then d else cache_lookup c u')"
  by (simp add: cache_lookup_def alist_get_obj_set)















lemma download_hit:
  "truthy (cache_lookup (cache st) url) \<Longrightarrow>
   download env url st = Return (cache_lookup (cache st) url, st)"
  by (simp add: download_def reading_def ret_def cloneDeep_def)












section \<open>The registry within a pass\<close>

lemma mgr_same_refl: "reflp mgr_same"
  by (simp add: reflp_def mgr_same_def)

lemma mgr_same_trans: "transp mgr_same"
  by (simp add: transp_def mgr_same_def)

lemma pres_same_log_msg: "pres mgr_same (log_msg l m)"
  by (rule presI) (auto simp: log_msg_def mgr_same_def)

lemma pres_same_cache_put: "pres mgr_same (cache_put u d)"
  by (rule presI) (auto simp: cache_put_def mgr_same_def)

lemma pres_same_download: "pres mgr_same (download env url)"
  unfolding download_def parse_body_def
  by (intro pres_intros mgr_same_refl mgr_same_trans pres_same_log_msg pres_same_cache_put)

lemma pres_same_load_target: "pres mgr_same (load_target env url)"
  unfolding load_target_def
  by (intro pres_intros mgr_same_refl mgr_same_trans pres_same_download pres_readYAML)

lemma mgr_grows_refl: "mgr_grows m m"
  by (simp add: mgr_grows_def)

lemma mgr_grows_trans:
  assumes "mgr_grows a b" and "mgr_grows b c"
  shows "mgr_grows a c"
proof -
  let ?f = "\<lambda>c. (ctype c, curl c, cname c)"
  from assms have le: "length (components a) \<le> length (components b)"
    "length (components b) \<le> length (components c)"
    and ab: "map ?f (take (length (components a)) (components b)) = map ?f (components a)"
    and bc: "map ?f (take (length (components b)) (components c)) = map ?f (components b)"
    and nr: "nameResolver c = nameResolver a"
    by (simp_all add: mgr_grows_def)
  have "map ?f (take (length (components a)) (components c))
      = take (length (components a)) (map ?f (take (length (components b)) (components c)))"
    using le by (simp add: take_map min_def)
  also have "\<dots> = map ?f (take (length (components a)) (components b))"
    unfolding bc by (simp add: take_map)
  finally show ?thesis using ab le nr by (simp add: mgr_grows_def)
qed

lemma mgr_step_refl: "reflp mgr_step"
  by (simp add: reflp_def mgr_step_def mgr_grows_refl)

lemma mgr_step_trans: "transp mgr_step"
  unfolding transp_def mgr_step_def using mgr_grows_trans by blast

lemma mgr_same_step: "mgr st' = mgr st \<Longrightarrow> mgr_step st st'"
  by (simp add: mgr_step_def mgr_grows_refl)

lemma pres_step_log_msg: "pres mgr_step (log_msg l m)"
  by (rule presI) (auto simp: log_msg_def intro: mgr_same_step)

lemma pres_step_download: "pres mgr_step (download env url)"
  by (rule presI) (metis mgr_same_step presD [OF pres_same_download] mgr_same_def)

lemma map_update_at:
  "(\<And>x. g (f x) = g x) \<Longrightarrow> map g (update_at i f xs) = map g xs"
  by (induction i f xs rule: update_at.induct) simp_all

lemma length_update_at: "length (update_at i f xs) = length xs"
  by (induction i f xs rule: update_at.induct) simp_all

lemma take_update_at: "take n (update_at i f xs) = update_at i f (take n xs)"
proof (induction i f xs arbitrary: n rule: update_at.induct)
  case (1 i f)
  show ?case by simp
next
  case (2 f x xs)
  show ?case by (cases n) simp_all
next
  case (3 i f x xs)
  then show ?case by (cases n) simp_all
qed

lemma pres_step_set_content: "pres mgr_step (set_content i v)"
proof (rule presI)
  fix st u st'
  assume "set_content i v st = Return (u, st')"
  then have st': "components (mgr st') = update_at i (\<lambda>c. c\<lparr>content := v\<rparr>) (components (mgr st))"
    and nr: "nameResolver (mgr st') = nameResolver (mgr st)"
    by (auto simp: set_content_def)
  have 1: "map (\<lambda>c. (ctype c, curl c, cname c)) (update_at i (\<lambda>c. c\<lparr>content := v\<rparr>) xs)
        = map (\<lambda>c. (ctype c, curl c, cname c)) xs" for xs
    by (rule map_update_at) simp
  have 2: "map (\<lambda>c. (ctype c, curl c)) (update_at i (\<lambda>c. c\<lparr>content := v\<rparr>) xs)
        = map (\<lambda>c. (ctype c, curl c)) xs" for xs
    by (rule map_update_at) simp
  show "mgr_step st st'"
    unfolding mgr_step_def mgr_grows_def registry_ok_def st' nr
    by (simp add: length_update_at 1 2)
qed

lemma find_component_None:
  "find_component t u i cs = None \<longleftrightarrow> (t, u) \<notin> set (map (\<lambda>c. (ctype c, curl c)) cs)"
  by (induction cs arbitrary: i) auto

lemma find_component_Some:
  "find_component t u i cs = Some (j, c) \<Longrightarrow> ctype c = t \<and> curl c = u \<and> c \<in> set cs"
  by (induction cs arbitrary: i) (auto split: if_splits)

lemma find_component_append:
  "find_component t u i (cs @ [c]) =
     (case find_component t u i cs of
        Some r \<Rightarrow> Some r
      | None \<Rightarrow> if ctype c = t \<and> curl c = u then Some (i + length cs, c) else None)"
  by (induction cs arbitrary: i) (auto split: option.splits)



lemma seq_ret: "seq (ret v) k = k v"
  by (rule ext) (simp add: seq_def ret_def)

lemma seq_lift_Inr: "seq (lift (Inr v)) k = k v"
  by (simp add: lift_def seq_ret)

lemma seq_reading: "seq (reading f) k st = seq (f st) k st"
  by (simp add: seq_def reading_def)

lemma seq_log_msg: "seq (log_msg l m) k st = k () (st\<lparr>logs := logs st @ [(l, m)]\<rparr>)"
  by (simp add: seq_def log_msg_def)

lemma getOrCreate_spec:
  assumes "getOrCreate env t url st = Return ((i, c), st')"
  shows "find_component t url 0 (components (mgr st')) = Some (i, c) \<and> mgr_step st st'"
proof (cases "find_component t url 0 (components (mgr st))")
  case (Some ic)
  with assms have "ic = (i, c)" "st' = st"
    by (simp_all add: getOrCreate_def reading_def ret_def)
  with Some show ?thesis by (simp add: mgr_same_step)
next
  case None
  with assms have
    "seq (load_target env url)
       (\<lambda>doc. reading (\<lambda>st1. register
          \<lparr>ctype = t, curl = url, content = doc,
            cname = componentName (util env) (nameResolver (mgr st1)) t url\<rparr>)) st
     = Return ((i, c), st')"
    by (simp add: getOrCreate_def reading_def)
  from seq_ReturnD [OF this] obtain doc st1 where
    l: "load_target env url st = Return (doc, st1)"
    and r: "reading (\<lambda>st1. register
          \<lparr>ctype = t, curl = url, content = doc,
            cname = componentName (util env) (nameResolver (mgr st1)) t url\<rparr>) st1
        = Return ((i, c), st')"
    by blast
  have same: "mgr st1 = mgr st"
    using presD [OF pres_same_load_target l] by (simp add: mgr_same_def)
  from r have c: "c = \<lparr>ctype = t, curl = url, content = doc,
            cname = componentName (util env) (nameResolver (mgr st)) t url\<rparr>"
    and i: "i = length (components (mgr st))"
    and st': "components (mgr st') = components (mgr st) @ [c]"
      "nameResolver (mgr st') = nameResolver (mgr st)"
    by (auto simp: reading_def register_def same)
  have f: "find_component t url 0 (components (mgr st')) = Some (i, c)"
    unfolding st' find_component_append None using c i by simp
  have notin: "(t, url) \<notin> set (map (\<lambda>c. (ctype c, curl c)) (components (mgr st)))"
    using None find_component_None by simp
  have "mgr_step st st'"
    unfolding mgr_step_def mgr_grows_def registry_ok_def st'
    using notin c by simp
  with f show ?thesis by simp
qed

lemma pres_step_getOrCreate: "pres mgr_step (getOrCreate env t url)"
proof (rule presI)
  fix st v st'
  assume a: "getOrCreate env t url st = Return (v, st')"
  obtain i c where "v = (i, c)" by (cases v)
  with a getOrCreate_spec show "mgr_step st st'" by blast
qed

lemma methods_at_mgr_step: "methods_pres mgr_step (methods_at n env)"
  by (rule methods_at_pres [OF mgr_step_refl mgr_step_trans pres_step_log_msg
        pres_step_getOrCreate pres_step_set_content])

lemma mergeRefs_mgr_step:
  "mergeRefs n env obj file jsonPath st = Return (v, st') \<Longrightarrow> mgr_step st st'"
  using methods_at_mgr_step [of n env] by (auto simp: methods_pres_def mergeRefs_def pres_def)




text \<open>\<^verbatim>\<open>handleRef\<close> from the registry on, for a directive that goes to the registry.\<close>

lemma handleRef_body_registry:
  assumes pr: "parseUrl (util env) val = Inr pRef"
    and pf: "parseUrl (util env) (JStr file) = Inr pFile"
    and ns: "\<not> shouldInclude (util env) (getRefType (util env) jsonPath)"
    and rt: "refTargetOf env pRef pFile val (mgr st) = Inr (Some (tgt, nf))"
  shows "handleRef_body callee env obj key val file jsonPath st =
     seq (getOrCreate env (getRefType (util env) jsonPath) tgt)
       (\<lambda>(i, cmp).
          let obj2 = set_prop (set_prop obj key (mergeOrOverwrite (util env) (get_prop obj key) val))
                       key (JStr (localRef (util env) (ctype cmp) (cname cmp)))
          in if \<not> mgr_exists (mgr st) (JStr tgt)
             then seq (call_mergeRefs callee (content cmp) nf (jsonPath @ ''.'' @ key))
                    (\<lambda>c. seq (set_content i c) (\<lambda>_. ret obj2))
             else ret obj2)
       (st\<lparr>logs := logs st @ [(Debug, ''ref    : '' @ jsonPath @ '' file=''
                 @ path_relative (node env) (baseDir st) file)]\<rparr>)"
  using assms
  by (simp add: handleRef_body_def debug_msg_def refTarget_def seq_reading seq_log_msg
      seq_lift_Inr seq_ret Let_def)

lemma ref_directiveD:
  assumes "ref_directive env val file jsonPath m = Some (cls, tgt, nf)"
  obtains pRef pFile where "parseUrl (util env) val = Inr pRef"
    and "parseUrl (util env) (JStr file) = Inr pFile"
    and "\<not> shouldInclude (util env) (getRefType (util env) jsonPath)"
    and "refTargetOf env pRef pFile val m = Inr (Some (tgt, nf))"
    and "cls = getRefType (util env) jsonPath"
  using assms
  by (auto simp: ref_directive_def split: sum.splits if_splits option.splits)


section \<open>One component for a class and a target\<close>

lemma count_distinct:
  "distinct (map f xs) \<Longrightarrow> y \<in> set (map f xs) \<Longrightarrow> length (filter (\<lambda>x. f x = y) xs) = 1"
proof (induction xs)
  case Nil
  then show ?case by simp
next
  case (Cons a xs)
  show ?case
  proof (cases "f a = y")
    case True
    with Cons.prems have "y \<notin> set (map f xs)" by auto
    then have "filter (\<lambda>x. f x = y) xs = []" by (auto simp: filter_empty_conv)
    with True show ?thesis by simp
  next
    case False
    with Cons show ?thesis by auto
  qed
qed

lemma registered_once:
  assumes "registry_ok m" and "lookup_name m cls tgt = Some nm"
  shows "length (filter (\<lambda>c. ctype c = cls \<and> curl c = tgt) (components m)) = 1"
proof -
  from assms(2) have "find_component cls tgt 0 (components m) \<noteq> None"
    by (auto simp: lookup_name_def split: option.splits)
  then have "(cls, tgt) \<in> set (map (\<lambda>c. (ctype c, curl c)) (components m))"
    by (simp add: find_component_None)
  from count_distinct [OF assms(1) [unfolded registry_ok_def] this]
  show ?thesis by (simp add: prod_eq_iff)
qed

lemma mergeRefs_new_registry_ok:
  assumes "mergeRefs n env doc p jp (s\<lparr>mgr := \<lparr>components = [], nameResolver = nr\<rparr>\<rparr>)
             = Return (d, st')"
  shows "registry_ok (mgr st')"
  using mergeRefs_mgr_step [OF assms] by (simp add: mgr_step_def registry_ok_def)

lemma merge_registry_ok:
  assumes "merge n env doc docPath st = Return (out, st')"
  shows "registry_ok (mgr st')"
  using assms unfolding merge_def Let_def
  by (auto simp: new_manager_def reading_def ret_def throw_def
        split: if_splits dest!: seq_ReturnD dest: mergeRefs_new_registry_ok)



section \<open>Cycles\<close>

lemma mgr_exists_registered:
  "find_component cls tgt i cs = Some (j, c) \<Longrightarrow> list_ex (\<lambda>c. JStr (curl c) = JStr tgt) cs"
  by (induction cs arbitrary: i) (auto split: if_splits)

lemma getOrCreate_registered:
  assumes "find_component cls tgt 0 (components (mgr st)) = Some (i, c)"
  shows "getOrCreate env cls tgt st = Return ((i, c), st)"
  using assms by (simp add: getOrCreate_def reading_def ret_def)

text \<open>
  The guard of \<^verbatim>\<open>handleRef\<close> (lines 137--140). A reference directive that
  \<^verbatim>\<open>handleRef\<close> takes to the registry, whose component (class and absolute target) is
  registered when the directive is handled: \<^verbatim>\<open>handleRef\<close> writes the local reference
  of that component and returns, whatever the three methods it could call would do, so
  it calls none of them and does not resolve the content of the component again; fuel
  for one call is enough. Only the log changes: the registry is as it was, with one
  component for the class and target.
\<close>

theorem registered_target_is_not_resolved_again:
  assumes dir: "ref_directive env val file jsonPath (mgr st) = Some (cls, tgt, nf)"
    and reg: "find_component cls tgt 0 (components (mgr st)) = Some (i, c)"
    and ok: "registry_ok (mgr st)"
  shows "handleRef_body callee env obj key val file jsonPath st
           = Return (set_prop (set_prop obj key (mergeOrOverwrite (util env) (get_prop obj key) val))
                       key (JStr (localRef (util env) cls (cname c))),
                     st\<lparr>logs := logs st @ [(Debug, ''ref    : '' @ jsonPath @ '' file=''
                            @ path_relative (node env) (baseDir st) file)]\<rparr>)
         \<and> handleRef (Suc n) env obj key val file jsonPath st
           = handleRef_body callee env obj key val file jsonPath st
         \<and> length (filter (\<lambda>c. ctype c = cls \<and> curl c = tgt) (components (mgr st))) = 1"
proof -
  from dir obtain pRef pFile where pr: "parseUrl (util env) val = Inr pRef"
    and pf: "parseUrl (util env) (JStr file) = Inr pFile"
    and ns: "\<not> shouldInclude (util env) (getRefType (util env) jsonPath)"
    and rt: "refTargetOf env pRef pFile val (mgr st) = Inr (Some (tgt, nf))"
    and cls: "cls = getRefType (util env) jsonPath"
    by (rule ref_directiveD)
  let ?st0 = "st\<lparr>logs := logs st @ [(Debug, ''ref    : '' @ jsonPath @ '' file=''
                 @ path_relative (node env) (baseDir st) file)]\<rparr>"
  have ex: "mgr_exists (mgr st) (JStr tgt)"
    unfolding mgr_exists_def by (rule mgr_exists_registered [OF reg])
  have g: "getOrCreate env (getRefType (util env) jsonPath) tgt ?st0 = Return ((i, c), ?st0)"
    using reg by (simp add: getOrCreate_def reading_def ret_def cls)
  have ct: "ctype c = cls" using find_component_Some [OF reg] by simp
  have body: "handleRef_body callee' env obj key val file jsonPath st
           = Return (set_prop (set_prop obj key (mergeOrOverwrite (util env) (get_prop obj key) val))
                       key (JStr (localRef (util env) cls (cname c))), ?st0)" for callee'
    unfolding handleRef_body_registry [OF pr pf ns rt]
    by (simp only: seq_def g outcome.case prod.case) (simp add: ex ct ret_def Let_def)
  have nm: "lookup_name (mgr st) cls tgt = Some (cname c)"
    by (simp add: lookup_name_def reg)
  show ?thesis
    unfolding handleRef_Suc body
    using registered_once [OF ok nm] by simp
qed

lemma include_cycle_step:
  assumes "\<And>st. mergeRefs n env_r doc_c ''/root/a.yaml'' ''$'' st = Timeout"
  shows "mergeRefs (Suc (Suc n)) env_r doc_c ''/root/a.yaml'' ''$'' st = Timeout"
  by (simp add: mergeRefs_Suc handleInclude_Suc call_methods_at body_defs
        demo_defs env_r_def doc_c_def assms [unfolded doc_c_def env_r_def] cong: seq_weak_cong)

lemma include_cycle_mergeRefs:
  "(\<forall>st. mergeRefs n env_r doc_c ''/root/a.yaml'' ''$'' st = Timeout)
   \<and> (\<forall>st. mergeRefs (Suc n) env_r doc_c ''/root/a.yaml'' ''$'' st = Timeout)"
proof (induction n)
  case 0
  show ?case
    by (simp add: mergeRefs_0)
       (simp add: mergeRefs_Suc handleInclude_0 call_methods_at body_defs doc_c_def
          cong: seq_weak_cong)
next
  case (Suc n)
  then show ?case by (simp add: include_cycle_step)
qed

theorem registered_target_is_not_resolved_again_witness:
  "handleRef (Suc 0) env_r (JObj []) ''$ref'' (JStr ''#/Node'') ''/root/n.yaml''
      ''$.root.$ref.next'' node_registered
     = Return (JObj [(''$ref'', JStr ''#/components/schemas/Node'')],
         node_registered\<lparr>logs := [(Debug, ''ref    : $.root.$ref.next file=n.yaml'')]\<rparr>)
   \<and> length (filter (\<lambda>c. ctype c = ''schemas'' \<and> curl c = ''/root/n.yaml#/Node'')
        (components (mgr node_registered))) = 1"
proof -
  let ?c = "\<lparr>ctype = ''schemas'', curl = ''/root/n.yaml#/Node'',
             content = JObj [(''next'', JObj [(''$ref'', JStr ''#/Node'')])],
             cname = ''Node''\<rparr>"
  have dir: "ref_directive env_r (JStr ''#/Node'') ''/root/n.yaml'' ''$.root.$ref.next''
      (mgr node_registered) = Some (''schemas'', ''/root/n.yaml#/Node'', ''/root/n.yaml'')"
    by (simp add: ref_directive_def refTargetOf_def resolveTargetOf_def mgr_exists_def
          demo_defs env_r_def node_registered_def)
  have reg: "find_component ''schemas'' ''/root/n.yaml#/Node'' 0
      (components (mgr node_registered)) = Some (0, ?c)"
    by (simp add: node_registered_def)
  have ok: "registry_ok (mgr node_registered)"
    by (simp add: registry_ok_def node_registered_def)
  from registered_target_is_not_resolved_again
    [OF dir reg ok, where n = 0 and callee = "methods_at 0 env_r" and obj = "JObj []"
       and key = "''$ref''"]
  show ?thesis
    by (simp add: demo_defs env_r_def node_registered_def obj_set_def index_of_key_def
          is_digit_def)
qed

text \<open>The reference cycle of \<^verbatim>\<open>n.yaml\<close>, whose \<^verbatim>\<open>Node\<close> refers to itself, is resolved
  with one component.\<close>

lemma reference_cycle_is_resolved:
  "merge (Suc (Suc (Suc (Suc (Suc (Suc 0)))))) env_r doc_r ''doc.yaml'' (init_state JNull)
     = Return
        (JObj [(''root'', JObj [(''$ref'', JStr ''#/components/schemas/Node'')]),
               (''components'', JObj [(''schemas'', JObj [(''Node'',
                  JObj [(''next'', JObj [(''$ref'', JStr ''#/components/schemas/Node'')])])])])],
         \<lparr>config = JNull, baseDir = ''/root'',
          mgr = \<lparr>components =
                   [\<lparr>ctype = ''schemas'', curl = ''/root/n.yaml#/Node'',
                      content = JObj [(''next'', JObj [(''$ref'', JStr ''#/components/schemas/Node'')])],
                      cname = ''Node''\<rparr>],
                 nameResolver = Some
                   [\<lparr>ctype = ''schemas'', curl = ''/root/n.yaml#/Node'',
                      content = JObj [(''next'', JObj [(''$ref'', JStr ''#/components/schemas/Node'')])],
                      cname = ''Node''\<rparr>]\<rparr>,
          cache = [],
          logs = [(Debug, ''ref    : $.root file=doc.yaml''),
                  (Debug, ''ref    : $.root.$ref.next file=n.yaml''),
                  (Debug, ''ref    : $.root file=doc.yaml''),
                  (Debug, ''ref    : $.root.$ref.next file=n.yaml'')]\<rparr>)"
  by (simp add: engine_defs demo_defs env_r_def doc_r_def cong: seq_weak_cong)

text \<open>
  C3 says that the resolution of every input graph, even a cyclic one, terminates. The
  code means it for references, with the guard above (and \<open>reference_cycle_is_resolved\<close>
  is a cycle of references that it resolves), and has a test for an include of a pointer into the
  document (line 171), and misses an include of a file: the branch of lines 176--205
  has no guard. \<^verbatim>\<open>a.yaml\<close> is \<^verbatim>\<open>{$include: ./a.yaml}\<close>; the include reads the file,
  finds the directive in it, and includes the file again, without end: no amount of
  fuel makes the merge return.
\<close>

theorem self_include_never_returns:
  "\<forall>n. merge n env_r doc_c ''a.yaml'' (init_state JNull) = Timeout"
proof
  fix n
  have m: "mergeRefs n env_r doc_c ''/root/a.yaml'' ''$'' st = Timeout" for st
    using include_cycle_mergeRefs by blast
  show "merge n env_r doc_c ''a.yaml'' (init_state JNull) = Timeout"
    by (simp add: merge_def Let_def seq_def set_baseDir_def lift_def new_manager_def ret_def
          reading_def demo_defs env_r_def m [unfolded env_r_def])
qed

section \<open>Two runs of a merge\<close>

lemma stableI:
  "(\<And>s t. agree env s t \<Longrightarrow> same_outcome (agree env) (m s) (m t)) \<Longrightarrow> stable env m"
  by (simp add: stable_def)

lemma stableD: "stable env m \<Longrightarrow> agree env s t \<Longrightarrow> same_outcome (agree env) (m s) (m t)"
  by (simp add: stable_def)

lemma same_outcome_Return:
  "same_outcome R (Return (v, s)) y \<longleftrightarrow> (\<exists>t. y = Return (v, t) \<and> R s t)"
  by (auto simp: same_outcome_def split: outcome.splits)

lemma stable_ret: "stable env (ret v)"
  by (simp add: stable_def ret_def same_outcome_def)

lemma stable_throw: "stable env (throw e)"
  by (simp add: stable_def throw_def same_outcome_def)

lemma stable_timeout: "stable env (\<lambda>st. Timeout)"
  by (simp add: stable_def same_outcome_def)

lemma stable_lift: "stable env (lift r)"
  by (cases r) (simp_all add: lift_def stable_ret stable_throw)

lemma stable_seq:
  assumes m: "stable env m" and k: "\<And>v. stable env (k v)"
  shows "stable env (seq m k)"
proof (rule stableI)
  fix s t
  assume a: "agree env s t"
  show "same_outcome (agree env) (seq m k s) (seq m k t)"
  proof (cases "m s")
    case Timeout
    with stableD [OF m a] show ?thesis by (simp add: same_outcome_def seq_def)
  next
    case (Throw e)
    with stableD [OF m a] show ?thesis by (simp add: same_outcome_def seq_def)
  next
    case (Return r)
    obtain v s1 where r: "r = (v, s1)" by (cases r)
    from stableD [OF m a] Return r obtain t1 where
      mt: "m t = Return (v, t1)" and a1: "agree env s1 t1"
      by (auto simp: same_outcome_Return)
    from stableD [OF k a1, of v] Return r mt show ?thesis by (simp add: seq_def)
  qed
qed

lemma stable_reading:
  assumes "\<And>a b. agree env a b \<Longrightarrow> f a = f b" and "\<And>a. stable env (f a)"
  shows "stable env (reading f)"
proof (rule stableI)
  fix s t
  assume a: "agree env s t"
  from stableD [OF assms(2) a, of s] assms(1) [OF a]
  show "same_outcome (agree env) (reading f s) (reading f t)"
    by (simp add: reading_def)
qed

lemma stable_if:
  "(c \<Longrightarrow> stable env a) \<Longrightarrow> (\<not> c \<Longrightarrow> stable env b) \<Longrightarrow> stable env (if c then a else b)"
  by simp

lemma stable_option:
  "(t = None \<Longrightarrow> stable env a) \<Longrightarrow> (\<And>x. t = Some x \<Longrightarrow> stable env (f x))
   \<Longrightarrow> stable env (case_option a f t)"
  by (cases t) simp_all

lemma stable_prod: "(\<And>a b. p = (a, b) \<Longrightarrow> stable env (f a b)) \<Longrightarrow> stable env (case_prod f p)"
  by (cases p) simp

lemma stable_Let: "(\<And>x. x = v \<Longrightarrow> stable env (f x)) \<Longrightarrow> stable env (Let v f)"
  by simp

lemmas stable_intros = stable_ret stable_throw stable_timeout stable_lift stable_seq stable_if
  stable_option stable_prod stable_Let

lemma stable_log_msg: "stable env (log_msg l m)"
  by (simp add: stable_def log_msg_def same_outcome_def agree_def)

lemma stable_set_content: "stable env (set_content i v)"
  by (simp add: stable_def set_content_def same_outcome_def agree_def)

lemma stable_register: "stable env (register c)"
  by (simp add: stable_def register_def same_outcome_def agree_def)

lemma stable_new_manager: "stable env (new_manager nr)"
  by (simp add: stable_def new_manager_def same_outcome_def agree_def)

lemma stable_set_baseDir: "stable env (set_baseDir d)"
  by (simp add: stable_def set_baseDir_def same_outcome_def agree_def)

lemma stable_readYAML: "stable env (readYAML env' f)"
  by (simp add: readYAML_def stable_throw stable_lift split: option.splits)

subsection \<open>\<^verbatim>\<open>download\<close> with two caches\<close>

lemma same_answers_refl: "same_answers env c c"
  by (simp add: same_answers_def)

lemma same_answers_sym: "same_answers env c c' \<Longrightarrow> same_answers env c' c"
  by (simp add: same_answers_def)

lemma same_answers_trans:
  "same_answers env c c' \<Longrightarrow> same_answers env c' c'' \<Longrightarrow> same_answers env c c''"
  by (simp add: same_answers_def)

lemma parse_body_outcome:
  "parse_body env url b st =
     (case body_doc env url b of
        Inl e \<Rightarrow> Throw e
      | Inr d \<Rightarrow> Return (d, st\<lparr>logs := logs st @
          (if ends_with url ''.yml'' \<or> ends_with url ''.yaml'' \<or> ends_with url ''.json'' then []
           else [(Warn, ''Cannot determine the file type: '' @ url)])\<rparr>))"
  by (simp add: parse_body_def body_doc_def lift_def ret_def throw_def seq_def log_msg_def
      split: sum.splits)

lemma same_answers_put:
  assumes "\<not> truthy (cache_lookup c url)" and "served env url = Some d"
  shows "same_answers env c (obj_set c url d)"
  using assms by (auto simp: same_answers_def answer_def cache_lookup_obj_set)

text \<open>What \<^verbatim>\<open>download\<close> returns: the answer of the cache, if it has one, in a state
  whose cache has the same answers.\<close>

lemma download_answered:
  assumes an: "answer env (cache st) url = Some d"
  shows "\<exists>st'. download env url st = Return (d, st')
            \<and> config st' = config st \<and> baseDir st' = baseDir st
            \<and> mgr st' = mgr st \<and> same_answers env (cache st) (cache st')"
proof (cases "truthy (cache_lookup (cache st) url)")
  case True
  with an download_hit [OF True, of env] show ?thesis
    by (simp add: answer_def same_answers_refl)
next
  case False
  with an have sv: "served env url = Some d" by (simp add: answer_def)
  then obtain status b where f: "fetch (node env) url = Response True status (Some b)"
    and b: "body_doc env url b = Inr d"
    by (auto simp: served_def split: response.splits option.splits sum.splits if_splits)
  from False f b same_answers_put [OF False sv] show ?thesis
    by (simp add: download_def reading_def seq_def log_msg_def ret_def parse_body_outcome
        cache_put_def cloneDeep_def)
qed

lemma download_unanswered:
  assumes an: "answer env (cache st) url = None"
  shows "(\<exists>st'. download env url st = Return (JObj [], st')
            \<and> config st' = config st \<and> baseDir st' = baseDir st
            \<and> mgr st' = mgr st \<and> cache st' = cache st)
         \<and> (\<forall>e. download env url st \<noteq> Throw e)
         \<and> (fetch (node env) url = Rejected
               \<or> (\<exists>status body. fetch (node env) url = Response False status body))
         \<or> (\<exists>e. download env url st = Throw e
                \<and> (\<forall>st'. \<not> truthy (cache_lookup (cache st') url)
                       \<longrightarrow> download env url st' = Throw e))
            \<and> (\<exists>status body. fetch (node env) url = Response True status body)"
proof -
  from an have miss: "\<not> truthy (cache_lookup (cache st) url)" and sv: "served env url = None"
    by (simp_all add: answer_def split: if_splits)
  show ?thesis
  proof (cases "fetch (node env) url")
    case Rejected
    with miss show ?thesis
      by (simp add: download_def reading_def seq_def log_msg_def ret_def)
  next
    case (Response rok status body)
    show ?thesis
    proof (cases rok)
      case False
      with miss Response show ?thesis
        by (simp add: download_def reading_def seq_def log_msg_def ret_def)
    next
      case True
      with sv Response have
        "body = None \<or> (\<exists>b e. body = Some b \<and> body_doc env url b = Inl e)"
        by (auto simp: served_def split: option.splits sum.splits)
      with miss Response True show ?thesis
        by (auto simp: download_def reading_def seq_def log_msg_def throw_def
            parse_body_outcome)
    qed
  qed
qed

lemma stable_download: "stable env (download env url)"
proof (rule stableI)
  fix s t
  assume a: "agree env s t"
  then have sa: "same_answers env (cache s) (cache t)"
    and eq: "config s = config t" "baseDir s = baseDir t" "mgr s = mgr t"
    by (simp_all add: agree_def)
  from sa have an: "answer env (cache t) url = answer env (cache s) url"
    by (simp add: same_answers_def)
  show "same_outcome (agree env) (download env url s) (download env url t)"
  proof (cases "answer env (cache s) url")
    case (Some d)
    from download_answered [OF Some] obtain s' where
      s: "download env url s = Return (d, s')" "config s' = config s" "baseDir s' = baseDir s"
        "mgr s' = mgr s" "same_answers env (cache s) (cache s')" by blast
    from download_answered [OF an [unfolded Some]] obtain t' where
      t: "download env url t = Return (d, t')" "config t' = config t" "baseDir t' = baseDir t"
        "mgr t' = mgr t" "same_answers env (cache t) (cache t')" by blast
    have "same_answers env (cache s') (cache t')"
      using same_answers_trans [OF same_answers_sym [OF s(5)] same_answers_trans [OF sa t(5)]] .
    with s t eq show ?thesis by (simp add: same_outcome_def agree_def)
  next
    case None
    with an have mt: "\<not> truthy (cache_lookup (cache t) url)"
      by (simp add: answer_def split: if_splits)
    from download_unanswered [OF None] consider
      (failed) s' where "download env url s = Return (JObj [], s')"
        "config s' = config s" "baseDir s' = baseDir s" "mgr s' = mgr s" "cache s' = cache s"
        "fetch (node env) url = Rejected
           \<or> (\<exists>status body. fetch (node env) url = Response False status body)"
      | (thrown) e where "download env url s = Throw e"
        "\<forall>st'. \<not> truthy (cache_lookup (cache st') url) \<longrightarrow> download env url st' = Throw e"
      by blast
    then show ?thesis
    proof cases
      case failed
      with download_unanswered [OF an [unfolded None]] obtain t' where
        "download env url t = Return (JObj [], t')"
        "config t' = config t" "baseDir t' = baseDir t" "mgr t' = mgr t" "cache t' = cache t"
        by auto
      with failed eq sa show ?thesis by (simp add: same_outcome_def agree_def)
    next
      case thrown
      with mt show ?thesis by (simp add: same_outcome_def)
    qed
  qed
qed

lemma pres_run_download: "pres (run_kept env) (download env url)"
proof (rule presI)
  fix st v st'
  assume run: "download env url st = Return (v, st')"
  show "run_kept env st st'"
  proof (cases "answer env (cache st) url")
    case (Some d)
    from download_answered [OF Some] run show ?thesis by (auto simp: run_kept_def)
  next
    case None
    from download_unanswered [OF None] run show ?thesis
      by (auto simp: run_kept_def same_answers_refl)
  qed
qed

subsection \<open>The engine with two caches\<close>

lemma stable_debug_msg: "stable env (debug_msg env w jp f)"
  unfolding debug_msg_def
  by (rule stable_reading) (simp_all add: agree_def stable_log_msg)

lemma stable_resolveTarget: "stable env (resolveTarget env pFile val)"
  unfolding resolveTarget_def by (rule stable_lift)

lemma stable_refTarget: "stable env (refTarget env pRef pFile val)"
  unfolding refTarget_def
  by (rule stable_reading) (simp_all add: agree_def stable_lift)

lemma stable_processInclude: "stable env (processInclude env key obj cfg)"
  unfolding processInclude_def by (intro stable_intros stable_log_msg)

lemma stable_finishInclude: "stable env (finishInclude env obj key val jsonPath merged)"
  unfolding finishInclude_def
  by (intro stable_intros stable_reading stable_processInclude) (simp_all add: agree_def)

lemma stable_load_target: "stable env (load_target env url)"
  unfolding load_target_def by (intro stable_intros stable_download stable_readYAML)

lemma stable_getOrCreate: "stable env (getOrCreate env t url)"
  unfolding getOrCreate_def
  by (intro stable_intros stable_reading stable_load_target stable_register)
     (simp_all add: agree_def)

lemma stable_mergeRefs_for:
  assumes c: "methods_stable env c"
  shows "stable env (mergeRefs_for c env es r file jsonPath)"
proof (induction es arbitrary: r)
  case Nil
  show ?case by (simp add: stable_ret)
next
  case (Cons e es)
  from c have
    m: "\<And>obj file jsonPath. stable env (call_mergeRefs c obj file jsonPath)"
    and h: "\<And>obj key val file jsonPath. stable env (call_handleRef c obj key val file jsonPath)"
    and i: "\<And>obj key val file jsonPath. stable env (call_handleInclude c obj key val file jsonPath)"
    by (simp_all add: methods_stable_def)
  show ?case
    unfolding mergeRefs_for.simps
    by (intro stable_intros m h i Cons.IH)
qed

lemma stable_mergeRefs_body:
  assumes c: "methods_stable env c"
  shows "stable env (mergeRefs_body c env obj file jsonPath)"
  unfolding mergeRefs_body_def by (intro stable_intros stable_mergeRefs_for c)

lemma stable_handleRef_body:
  assumes c: "methods_stable env c"
  shows "stable env (handleRef_body c env obj key val file jsonPath)"
proof -
  from c have
    m: "\<And>obj file jsonPath. stable env (call_mergeRefs c obj file jsonPath)"
    and i: "\<And>obj key val file jsonPath. stable env (call_handleInclude c obj key val file jsonPath)"
    by (simp_all add: methods_stable_def)
  show ?thesis
    unfolding handleRef_body_def
    by (intro stable_intros stable_reading m i stable_getOrCreate stable_set_content
          stable_debug_msg stable_refTarget)
       (simp_all add: agree_def)
qed

lemma stable_includeFiles_for:
  assumes c: "methods_stable env c"
  shows "stable env (includeFiles_for c env mfs acc key file jsonPath)"
proof (induction mfs arbitrary: acc)
  case Nil
  show ?case by (simp add: stable_ret)
next
  case (Cons mf mfs)
  from c have
    i: "\<And>obj key val file jsonPath. stable env (call_handleInclude c obj key val file jsonPath)"
    by (simp_all add: methods_stable_def)
  show ?case
    unfolding includeFiles_for.simps
    by (intro stable_intros i Cons.IH)
qed

lemma stable_includeContent:
  assumes c: "methods_stable env c"
  shows "stable env (includeContent c env pRef pFile key val file jsonPath)"
  unfolding includeContent_def merger_download_def
  by (intro stable_intros stable_reading stable_readYAML stable_resolveTarget
        stable_includeFiles_for c)
     (simp_all add: agree_def)

lemma stable_resolveInclude:
  assumes c: "methods_stable env c"
  shows "stable env (resolveInclude c env key val file jsonPath)"
proof -
  from c have
    m: "\<And>obj file jsonPath. stable env (call_mergeRefs c obj file jsonPath)"
    by (simp_all add: methods_stable_def)
  show ?thesis
    unfolding resolveInclude_def
    by (intro stable_intros m stable_includeContent c)
qed

lemma stable_handleInclude_body:
  assumes c: "methods_stable env c"
  shows "stable env (handleInclude_body c env obj key val file jsonPath)"
  unfolding handleInclude_body_def
  by (intro stable_intros stable_debug_msg stable_resolveInclude c stable_finishInclude)

lemma methods_at_stable: "methods_stable env (methods_at n env)"
proof (induction n)
  case 0
  show ?case by (simp add: methods_stable_def methods_at.simps stable_timeout)
next
  case (Suc n)
  show ?case
    unfolding methods_stable_def methods_at.simps
    using stable_mergeRefs_body [OF Suc] stable_handleRef_body [OF Suc]
      stable_handleInclude_body [OF Suc]
    by simp
qed

lemma stable_mergeRefs: "stable env (mergeRefs n env obj file jsonPath)"
  using methods_at_stable [of env n] by (simp add: methods_stable_def mergeRefs_def)

lemma merge_two_states:
  assumes cfg: "config s = config t"
    and sa: "same_answers env (cache s) (cache t)"
  shows "same_outcome (agree env) (merge n env doc docPath s) (merge n env doc docPath t)"
proof -
  define d where "d = path_dirname (node env) (path_resolve (node env) (cwd (node env)) docPath)"
  define rest where "rest = (\<lambda>p :: purl.
     seq (mergeRefs n env doc (path p) ''$'')
       (\<lambda>_. seq (reading (\<lambda>st. new_manager (Some (components (mgr st)))))
          (\<lambda>_. seq (mergeRefs n env doc (path p) ''$'')
             (\<lambda>doc1. reading (\<lambda>st.
                if isObject doc1
                then ret (set_prop doc1 ''components''
                           (lodash_merge (get_prop doc1 ''components'')
                              (getComponentsSection (mgr st))))
                else throw (TypeError ''Cannot set properties: components''))))))"
  have rest: "stable env (rest p)" for p
    unfolding rest_def
    by (intro stable_intros stable_reading stable_mergeRefs stable_new_manager)
       (simp_all add: agree_def)
  have m: "merge n env doc docPath st =
      (case parseUrl (util env) (JStr (path_resolve (node env) (cwd (node env)) docPath)) of
         Inl e \<Rightarrow> Throw e
       | Inr p \<Rightarrow> rest p (st\<lparr>baseDir := d, mgr := \<lparr>components = [], nameResolver = None\<rparr>\<rparr>))" for st
    unfolding merge_def Let_def rest_def d_def
    by (simp add: seq_def set_baseDir_def new_manager_def lift_def ret_def throw_def
        split: sum.splits cong: seq_weak_cong)
  show ?thesis
  proof (cases "parseUrl (util env) (JStr (path_resolve (node env) (cwd (node env)) docPath))")
    case (Inl e)
    then show ?thesis by (simp add: m same_outcome_def)
  next
    case (Inr p)
    have "agree env (s\<lparr>baseDir := d, mgr := \<lparr>components = [], nameResolver = None\<rparr>\<rparr>)
            (t\<lparr>baseDir := d, mgr := \<lparr>components = [], nameResolver = None\<rparr>\<rparr>)"
      using cfg sa by (simp add: agree_def)
    from stableD [OF rest this] Inr show ?thesis by (simp add: m)
  qed
qed

lemma run_kept_refl: "reflp (run_kept env)"
  by (simp add: reflp_def run_kept_def same_answers_refl)

lemma run_kept_trans: "transp (run_kept env)"
  by (auto simp: transp_def run_kept_def intro: same_answers_trans)

lemma run_kept_same: "config st' = config st \<Longrightarrow> cache st' = cache st \<Longrightarrow> run_kept env st st'"
  by (simp add: run_kept_def same_answers_refl)

lemma pres_run_log_msg: "pres (run_kept env) (log_msg l m)"
  by (rule presI) (auto simp: log_msg_def intro: run_kept_same)

lemma pres_run_set_content: "pres (run_kept env) (set_content i v)"
  by (rule presI) (auto simp: set_content_def intro: run_kept_same)

lemma pres_run_register: "pres (run_kept env) (register c)"
  by (rule presI) (auto simp: register_def intro: run_kept_same)

lemma pres_run_new_manager: "pres (run_kept env) (new_manager nr)"
  by (rule presI) (auto simp: new_manager_def intro: run_kept_same)

lemma pres_run_set_baseDir: "pres (run_kept env) (set_baseDir d)"
  by (rule presI) (auto simp: set_baseDir_def intro: run_kept_same)

lemma pres_run_load_target: "pres (run_kept env) (load_target env url)"
  unfolding load_target_def
  by (intro pres_intros run_kept_refl run_kept_trans pres_run_download pres_readYAML)

lemma pres_run_getOrCreate: "pres (run_kept env) (getOrCreate env t url)"
  unfolding getOrCreate_def
  by (intro pres_intros run_kept_refl run_kept_trans pres_run_load_target pres_run_register)

lemma pres_run_mergeRefs: "pres (run_kept env) (mergeRefs n env obj file jsonPath)"
  using methods_at_pres [OF run_kept_refl run_kept_trans pres_run_log_msg
      pres_run_getOrCreate pres_run_set_content, where n = n]
  by (simp add: methods_pres_def mergeRefs_def)

lemma pres_run_merge: "pres (run_kept env) (merge n env doc docPath)"
  unfolding merge_def
  by (intro pres_intros run_kept_refl run_kept_trans pres_run_mergeRefs
      pres_run_new_manager pres_run_set_baseDir)

lemma same_outcome_fst:
  "same_outcome R x y \<Longrightarrow> map_outcome fst x = map_outcome fst y"
  by (auto simp: same_outcome_def split: outcome.splits)

text \<open>
  C5. The output of a merge is a function of the input document, its path, the
  configuration, the file system, the network and the answers of the cache: it does not
  depend on the registry, the base directory and the log that a former merge left, and
  of the cache only on the documents it has or would fetch. So two merges of the same
  input, in two states with the same configuration whose caches have the same answers
  (two new processes, say), time out alike, throw the same exception, or return the
  same document, with the same component names and the same order of keys. And a run
  leaves a cache with the answers it found: a second run of a merge that has returned,
  started in the state the first run left, returns the same document.
\<close>

theorem merge_is_deterministic:
  "(config t = config s \<and> same_answers env (cache s) (cache t)
      \<longrightarrow> map_outcome fst (merge n env doc docPath t)
          = map_outcome fst (merge n env doc docPath s))
   \<and> (\<forall>out s'. merge n env doc docPath s = Return (out, s')
          \<longrightarrow> (\<exists>s''. merge n env doc docPath s' = Return (out, s'')))"
proof (rule conjI)
  show "config t = config s \<and> same_answers env (cache s) (cache t)
          \<longrightarrow> map_outcome fst (merge n env doc docPath t)
              = map_outcome fst (merge n env doc docPath s)"
    using merge_two_states [where s = t and t = s and env = env and n = n and doc = doc
        and docPath = docPath]
    by (auto dest: same_outcome_fst same_answers_sym)
next
  show "\<forall>out s'. merge n env doc docPath s = Return (out, s')
          \<longrightarrow> (\<exists>s''. merge n env doc docPath s' = Return (out, s''))"
  proof (intro allI impI)
    fix out s'
    assume run: "merge n env doc docPath s = Return (out, s')"
    from presD [OF pres_run_merge run] have cfg: "config s = config s'"
      and sa: "same_answers env (cache s) (cache s')"
      by (simp_all add: run_kept_def)
    from merge_two_states [OF cfg sa, where n = n and doc = doc and docPath = docPath] run
    show "\<exists>s''. merge n env doc docPath s' = Return (out, s'')"
      by (auto simp: same_outcome_Return)
  qed
qed

theorem merge_is_deterministic_witness:
  "merge (Suc (Suc (Suc (Suc (Suc 0))))) env_n1 doc_u ''doc.yaml'' (init_state JNull)
     = Return (JObj [(''r'', JObj [(''$ref'', JStr ''#/components/schemas/x.yaml'')]),
                     (''components'',
                      JObj [(''schemas'', JObj [(''x.yaml'', JObj [(''v'', JNum 1)])])])],
               after_ref_merge)
   \<and> map_outcome fst
        (merge (Suc (Suc (Suc (Suc (Suc 0))))) env_n1 doc_u ''doc.yaml'' after_ref_merge)
     = Return (JObj [(''r'', JObj [(''$ref'', JStr ''#/components/schemas/x.yaml'')]),
                     (''components'',
                      JObj [(''schemas'', JObj [(''x.yaml'', JObj [(''v'', JNum 1)])])])])
   \<and> map_outcome fst
        (merge (Suc (Suc (Suc (Suc (Suc 0))))) env_n1 doc_u ''doc.yaml'' after_first_download)
     = Return (JObj [(''r'', JObj [(''$ref'', JStr ''#/components/schemas/x.yaml'')]),
                     (''components'',
                      JObj [(''schemas'', JObj [(''x.yaml'', JObj [(''v'', JNum 1)])])])])"
proof -
  let ?out = "JObj [(''r'', JObj [(''$ref'', JStr ''#/components/schemas/x.yaml'')]),
                     (''components'',
                      JObj [(''schemas'', JObj [(''x.yaml'', JObj [(''v'', JNum 1)])])])]"
  let ?n = "Suc (Suc (Suc (Suc (Suc 0))))"
  have run: "merge ?n env_n1 doc_u ''doc.yaml'' (init_state JNull) = Return (?out, after_ref_merge)"
    by (simp add: engine_defs demo_defs env_n1_def doc_u_def after_ref_merge_def
        cong: seq_weak_cong)
  have sv: "served env_n1 ''http://h/x.yaml'' = Some (JObj [(''v'', JNum 1)])"
    by (simp add: served_def body_doc_def ends_with_def demo_env_fields env_n1_def)
  have sa: "same_answers env_n1 (cache (init_state JNull)) (cache after_first_download)"
    by (simp add: same_answers_def answer_def cache_lookup_def init_state_def
        after_first_download_def sv)
  have cfg: "config after_first_download = config (init_state JNull)"
    by (simp add: init_state_def after_first_download_def)
  note det = merge_is_deterministic [where s = "init_state JNull" and env = env_n1 and n = ?n
      and doc = doc_u and docPath = "''doc.yaml''"]
  from det [where t = after_first_download, THEN conjunct2] run
  have second: "map_outcome fst (merge ?n env_n1 doc_u ''doc.yaml'' after_ref_merge) = Return ?out"
    by auto
  from det [where t = after_first_download, THEN conjunct1] cfg sa run
  have other: "map_outcome fst (merge ?n env_n1 doc_u ''doc.yaml'' after_first_download)
      = Return ?out"
    by simp
  from run second other show ?thesis by (intro conjI)
qed

end
